(* ===== verification/Prelude.thy ===== *)
theory Prelude
  imports Main "HOL-Library.Word"
begin

text \<open>
  Shared vocabulary of the development: bytes and characters, big-endian byte strings of
  32-bit and 16-bit words, checked copies into a fixed buffer, results as sums with the
  error on the left, and the counting lemma the thread model uses.  Nothing here models a
  particular function of the program; the component theories do.
\<close>

unbundle bit_operations_syntax

named_theorems wire_simps \<open>rewrite rules about byte strings and fixed buffers\<close>
named_theorems res_simps \<open>rewrite rules about results (sums with the error on the left)\<close>

section \<open>Bytes and characters\<close>

type_synonym byte = "8 word"

text \<open>A \<open>char\<close> of the program is one byte; \<open>reinterpret_cast\<close> between \<open>std::byte*\<close> and
  \<open>char*\<close> reads the same byte.\<close>

definition byte_of_char :: "char \<Rightarrow> byte" where
  "byte_of_char c = word_of_nat (of_char c)"

definition char_of_byte :: "byte \<Rightarrow> char" where
  "char_of_byte b = char_of (unat b)"

abbreviation bytes_of :: "string \<Rightarrow> byte list" where
  "bytes_of s \<equiv> map byte_of_char s"

abbreviation chars_of :: "byte list \<Rightarrow> string" where
  "chars_of bs \<equiv> map char_of_byte bs"

lemma char_of_byte_of_char [simp]: "char_of_byte (byte_of_char c) = c"
  by (simp add: char_of_byte_def byte_of_char_def unat_of_nat)

lemma byte_of_char_of_byte [simp]: "byte_of_char (char_of_byte b) = b"
proof -
  have "unat b < 256" using unsigned_less [of b] by simp
  then show ?thesis by (simp add: char_of_byte_def byte_of_char_def)
qed

lemma byte_of_char_inject [simp]: "byte_of_char c = byte_of_char d \<longleftrightarrow> c = d"
  by (metis char_of_byte_of_char)

lemma byte_of_NUL [simp]: "byte_of_char (CHR 0x00) = 0"
  by (simp add: byte_of_char_def)

lemma byte_of_char_0_iff [simp]: "byte_of_char c = 0 \<longleftrightarrow> c = CHR 0x00"
  by (metis byte_of_NUL byte_of_char_inject)

lemma char_of_byte_NUL_iff [simp]: "char_of_byte b = CHR 0x00 \<longleftrightarrow> b = 0"
  by (metis byte_of_NUL byte_of_char_of_byte char_of_byte_of_char)

lemma chars_of_bytes_of [simp]: "chars_of (bytes_of s) = s"
  by (induction s) simp_all

lemma bytes_of_chars_of [simp]: "bytes_of (chars_of bs) = bs"
  by (induction bs) simp_all

lemma bytes_of_inject [simp]: "bytes_of s = bytes_of t \<longleftrightarrow> s = t"
  by (metis chars_of_bytes_of)

text \<open>String literals of the source outside ASCII are given by their UTF-8 bytes.\<close>

definition utf8 :: "nat list \<Rightarrow> string" where
  "utf8 ns = map char_of ns"

section \<open>Big-endian byte strings\<close>

definition be32 :: "32 word \<Rightarrow> byte list" where
  "be32 w = [ucast (drop_bit 24 w), ucast (drop_bit 16 w), ucast (drop_bit 8 w), ucast w]"

fun of_be32 :: "byte list \<Rightarrow> 32 word" where
  "of_be32 [a, b, c, d] =
     push_bit 24 (ucast a) OR push_bit 16 (ucast b) OR push_bit 8 (ucast c) OR ucast d"
| "of_be32 _ = 0"

definition be16 :: "16 word \<Rightarrow> byte list" where
  "be16 w = [ucast (drop_bit 8 w), ucast w]"

fun of_be16 :: "byte list \<Rightarrow> 16 word" where
  "of_be16 [a, b] = push_bit 8 (ucast a) OR ucast b"
| "of_be16 _ = 0"

lemma length_be32 [simp, wire_simps]: "length (be32 w) = 4"
  by (simp add: be32_def)

lemma length_be16 [simp, wire_simps]: "length (be16 w) = 2"
  by (simp add: be16_def)

lemma of_be32_be32 [simp]: "of_be32 (be32 w) = w"
proof (rule bit_word_eqI)
  fix n
  assume "n < LENGTH(32)"
  then show "bit (of_be32 (be32 w)) n \<longleftrightarrow> bit w n"
    by (cases "n < 8"; cases "n < 16"; cases "n < 24") (auto simp: be32_def bit_simps)
qed

lemma be32_of_be32 [simp]:
  assumes "length bs = 4"
  shows "be32 (of_be32 bs) = bs"
proof -
  from assms obtain a b c d where bs: "bs = [a, b, c, d]"
    by (auto simp: numeral_eq_Suc length_Suc_conv)
  show ?thesis
    unfolding bs be32_def of_be32.simps list.inject
    by (intro conjI refl; rule bit_word_eqI) (auto simp: bit_simps dest: bit_imp_le_length)
qed

lemma of_be16_be16 [simp]: "of_be16 (be16 w) = w"
proof (rule bit_word_eqI)
  fix n
  assume "n < LENGTH(16)"
  then show "bit (of_be16 (be16 w)) n \<longleftrightarrow> bit w n"
    by (cases "n < 8") (auto simp: be16_def bit_simps)
qed

lemma be16_of_be16 [simp]:
  assumes "length bs = 2"
  shows "be16 (of_be16 bs) = bs"
proof -
  from assms obtain a b where bs: "bs = [a, b]"
    by (auto simp: numeral_eq_Suc length_Suc_conv)
  show ?thesis
    unfolding bs be16_def of_be16.simps list.inject
    by (intro conjI refl; rule bit_word_eqI) (auto simp: bit_simps dest: bit_imp_le_length)
qed

section \<open>Copies into and out of a fixed buffer\<close>

text \<open>
  \<open>memcpy_to off bs d\<close> is a copy of \<open>bs\<close> to offset \<open>off\<close> of the buffer \<open>d\<close>: \<open>None\<close> when it
  would write past the end (undefined behaviour in C++).  \<open>memcpy_from off n d\<close> reads \<open>n\<close>
  bytes, with \<open>None\<close> when it would read past the end.
\<close>

definition memcpy_to :: "nat \<Rightarrow> byte list \<Rightarrow> byte list \<Rightarrow> byte list option" where
  "memcpy_to off bs d =
     (if off + length bs \<le> length d
      then Some (take off d @ bs @ drop (off + length bs) d) else None)"

definition memcpy_from :: "nat \<Rightarrow> nat \<Rightarrow> byte list \<Rightarrow> byte list option" where
  "memcpy_from off n d =
     (if off + n \<le> length d then Some (take n (drop off d)) else None)"

lemma memcpy_to_SomeD:
  "memcpy_to off bs d = Some d' \<Longrightarrow> length d' = length d \<and> off + length bs \<le> length d"
  by (auto simp: memcpy_to_def split: if_splits)

lemma memcpy_from_SomeD:
  "memcpy_from off n d = Some bs \<Longrightarrow> length bs = n \<and> off + n \<le> length d"
  by (auto simp: memcpy_from_def split: if_splits)

text \<open>\<open>std::find\<close> on a range, as the distance from its start: the length of the range when
  the value is absent.\<close>

fun find_pos :: "'a \<Rightarrow> 'a list \<Rightarrow> nat" where
  "find_pos x [] = 0"
| "find_pos x (y # ys) = (if y = x then 0 else Suc (find_pos x ys))"

lemma find_pos_takeWhile: "find_pos x ys = length (takeWhile (\<lambda>y. y \<noteq> x) ys)"
  by (induction ys) auto

lemma find_pos_le [simp]: "find_pos x ys \<le> length ys"
  by (induction ys) auto

lemma find_pos_eq_length [simp]: "find_pos x ys = length ys \<longleftrightarrow> x \<notin> set ys"
  by (induction ys) auto

lemma take_find_pos [simp]: "take (find_pos x ys) ys = takeWhile (\<lambda>y. y \<noteq> x) ys"
  by (induction ys) auto

lemma split_at_first:
  assumes "x \<notin> set a" and "x \<notin> set b"
  shows "a @ x # c = b @ x # d \<longleftrightarrow> a = b \<and> c = d"
  using assms
proof (induction a arbitrary: b)
  case Nil
  then show ?case by (cases b) auto
next
  case (Cons y a)
  then show ?case by (cases b) auto
qed

lemma map_le_empty_iff [simp]: "m \<subseteq>\<^sub>m (\<lambda>x. None) \<longleftrightarrow> m = (\<lambda>x. None)"
  by (auto simp: map_le_def fun_eq_iff)

lemma find_SomeD: "find Q xs = Some x \<Longrightarrow> Q x \<and> x \<in> set xs"
  by (induction xs) (auto split: if_splits)

section \<open>Results\<close>

fun bind_res :: "'e + 'a \<Rightarrow> ('a \<Rightarrow> 'e + 'b) \<Rightarrow> 'e + 'b" where
  "bind_res (Inl e) f = Inl e"
| "bind_res (Inr a) f = f a"

lemma isl_iff: "isl r \<longleftrightarrow> (\<forall>x. r \<noteq> Inr x)"
  by (cases r) auto

fun mapM_res :: "('a \<Rightarrow> 'e + 'b) \<Rightarrow> 'a list \<Rightarrow> 'e + 'b list" where
  "mapM_res f [] = Inr []"
| "mapM_res f (x # xs) = bind_res (f x) (\<lambda>y. bind_res (mapM_res f xs) (\<lambda>ys. Inr (y # ys)))"

lemma bind_res_Inr_iff [res_simps]:
  "bind_res m f = Inr b \<longleftrightarrow> (\<exists>a. m = Inr a \<and> f a = Inr b)"
  by (cases m) auto

lemma bind_res_Inl_iff [res_simps]:
  "bind_res m f = Inl e \<longleftrightarrow> m = Inl e \<or> (\<exists>a. m = Inr a \<and> f a = Inl e)"
  by (cases m) auto

lemma bind_res_cong [fundef_cong]:
  "m = m' \<Longrightarrow> (\<And>a. m' = Inr a \<Longrightarrow> f a = g a) \<Longrightarrow> bind_res m f = bind_res m' g"
  by (cases m') auto

lemma mapM_res_Inr_iff [res_simps]:
  "mapM_res f xs = Inr ys \<longleftrightarrow> list_all2 (\<lambda>x y. f x = Inr y) xs ys"
proof (induction xs arbitrary: ys)
  case Nil
  then show ?case by auto
next
  case (Cons x xs)
  then show ?case by (cases ys) (auto simp: res_simps)
qed

lemma mapM_res_map_inverse:
  "(\<And>x. x \<in> set xs \<Longrightarrow> f (g x) = Inr x) \<Longrightarrow> mapM_res f (map g xs) = Inr xs"
  by (induction xs) auto

lemma mapM_res_Inl_imp:
  "mapM_res f xs = Inl e \<Longrightarrow> \<exists>x \<in> set xs. f x = Inl e"
  by (induction xs) (auto simp: res_simps)

section \<open>Decimal numbers\<close>

text \<open>\<open>std::to_string\<close> of a non-negative integer.\<close>

definition digits :: string where
  "digits = ''0123456789''"

fun decimal :: "nat \<Rightarrow> string" where
  "decimal n =
     (if n < 10 then [digits ! n] else decimal (n div 10) @ [digits ! (n mod 10)])"

declare decimal.simps [simp del]

lemma decimal_small: "n < 10 \<Longrightarrow> decimal n = [digits ! n]"
  by (simp add: decimal.simps)

lemma decimal_large: "\<not> n < 10 \<Longrightarrow> decimal n = decimal (n div 10) @ [digits ! (n mod 10)]"
  by (simp add: decimal.simps [of n])

lemma digits_facts: "length digits = 10" "distinct digits"
  by (simp_all add: digits_def)

lemma digit_in_digits: "n < 10 \<Longrightarrow> digits ! n \<in> set digits"
  by (rule nth_mem) (simp add: digits_facts)

lemma digit_inject: "m < 10 \<Longrightarrow> n < 10 \<Longrightarrow> digits ! m = digits ! n \<longleftrightarrow> m = n"
  by (simp add: digits_facts nth_eq_iff_index_eq)

lemma decimal_nonempty [simp]: "decimal n \<noteq> []" "[] \<noteq> decimal n"
  by (cases "n < 10"; simp add: decimal_small decimal_large)+

lemma decimal_digits: "set (decimal n) \<subseteq> set digits"
proof (induction n rule: decimal.induct)
  case (1 n)
  then show ?case
    by (cases "n < 10") (simp_all add: decimal_small decimal_large digit_in_digits)
qed

lemma decimal_inject: "decimal m = decimal n \<longleftrightarrow> m = n"
proof (induction m arbitrary: n rule: decimal.induct)
  case (1 m)
  have lt: "m mod 10 < 10" "n mod 10 < 10" by simp_all
  show ?case
  proof (cases "m < 10 \<or> n < 10")
    case True
    then show ?thesis
      by (cases "m < 10"; cases "n < 10")
        (auto simp: decimal_small decimal_large digit_inject)
  next
    case False
    then have "decimal m = decimal n \<longleftrightarrow> m div 10 = n div 10 \<and> m mod 10 = n mod 10"
      using "1.IH" [of "n div 10"] digit_inject [OF lt]
      by (simp add: decimal_large)
    also have "\<dots> \<longleftrightarrow> m = n" by (metis div_mult_mod_eq)
    finally show ?thesis .
  qed
qed

section \<open>Counting threads\<close>

text \<open>One thread moves: the number of threads in a class changes by what that thread left and
  entered.\<close>

lemma card_fun_upd:
  fixes f :: "'t::finite \<Rightarrow> 'p"
  shows "card {u. P ((f(t := x)) u)} + (if P (f t) then 1 else 0) =
         card {u. P (f u)} + (if P x then 1 else 0)"
proof -
  let ?A = "{u. P (f u) \<and> u \<noteq> t}"
  have old: "{u. P (f u)} = (if P (f t) then insert t ?A else ?A)" by auto
  have new: "{u. P ((f(t := x)) u)} = (if P x then insert t ?A else ?A)" by auto
  show ?thesis unfolding old new by simp
qed

lemma card_class_pos_iff:
  fixes f :: "'t::finite \<Rightarrow> 'p"
  shows "0 < card {u. P (f u)} \<longleftrightarrow> (\<exists>u. P (f u))"
  by (simp add: card_gt_0_iff Collect_empty_eq)

section \<open>Singletons\<close>

text \<open>\<open>boost::serialization::singleton<T>::get_mutable_instance()\<close>: the one instance, default
  constructed at its first use.\<close>

fun get_mutable_instance :: "'a \<Rightarrow> 'a option \<Rightarrow> 'a" where
  "get_mutable_instance fresh None = fresh"
| "get_mutable_instance fresh (Some x) = x"

end
