(* ===== verification/Blocking_Queue.thy ===== *)
theory Blocking_Queue
  imports Prelude
begin

text \<open>
  The bounded blocking queue as an object: \<open>comm::utilities::bounded_blocking_queue<T>\<close>
  (\<open>libs/comm/include/comm/utilities/bounded_blocking_queue.hpp\<close>).  Here are its data
  members, the conditions its loops wait on and the code its operations run while they hold
  the mutex; the mutex, the condition variables and the threads are in \<open>Queue_Threads\<close>.  A
  sequential history language states what the queue promises.
\<close>

section \<open>The object and its critical sections\<close>

record 'a bounded_blocking_queue =
  capacity :: nat
  items :: "'a list"
  is_closed :: bool

definition new_queue :: "nat \<Rightarrow> 'a bounded_blocking_queue" where
  "new_queue cap = \<lparr>capacity = cap, items = [], is_closed = False\<rparr>"

text \<open>The conditions of the two \<open>while\<close> loops.\<close>

definition push_waits :: "'a bounded_blocking_queue \<Rightarrow> bool" where
  "push_waits b \<longleftrightarrow> \<not> is_closed b \<and> length (items b) \<ge> capacity b"

definition pop_waits :: "'a bounded_blocking_queue \<Rightarrow> bool" where
  "pop_waits b \<longleftrightarrow> \<not> is_closed b \<and> items b = []"

text \<open>What follows the loops, up to the release of the mutex.\<close>

definition push_body :: "'a \<Rightarrow> 'a bounded_blocking_queue \<Rightarrow> bool \<times> 'a bounded_blocking_queue" where
  "push_body item b =
     (if is_closed b then (False, b) else (True, b\<lparr>items := items b @ [item]\<rparr>))"

definition pop_body :: "'a bounded_blocking_queue \<Rightarrow> 'a option \<times> 'a bounded_blocking_queue" where
  "pop_body b =
     (case items b of [] \<Rightarrow> (None, b) | out # rest \<Rightarrow> (Some out, b\<lparr>items := rest\<rparr>))"

definition close_body :: "'a bounded_blocking_queue \<Rightarrow> 'a bounded_blocking_queue" where
  "close_body b = b\<lparr>is_closed := True\<rparr>"

definition closed_body :: "'a bounded_blocking_queue \<Rightarrow> bool" where
  "closed_body b = is_closed b"

definition size_body :: "'a bounded_blocking_queue \<Rightarrow> nat" where
  "size_body b = length (items b)"

definition bounded :: "'a bounded_blocking_queue \<Rightarrow> bool" where
  "bounded b \<longleftrightarrow> length (items b) \<le> capacity b"

section \<open>Sequential specification\<close>

text \<open>
  One event per completed call, at the moment it takes effect.  \<open>L_timeout d now\<close> is a timed
  call that gave up at time \<open>now\<close>, its deadline being \<open>d\<close>.
\<close>

datatype 'a lin =
    L_push 'a | L_push_closed
  | L_pop 'a | L_pop_drained
  | L_timeout int int
  | L_close | L_closed bool | L_size nat

text \<open>The abstract queue: its elements and whether it is closed.  \<open>spec_step\<close> is \<open>None\<close> when the
  event is not allowed in the state.\<close>

fun spec_step :: "nat \<Rightarrow> 'a lin \<Rightarrow> 'a list \<times> bool \<Rightarrow> ('a list \<times> bool) option" where
  "spec_step cap (L_push x) (xs, c) =
     (if \<not> c \<and> length xs < cap then Some (xs @ [x], c) else None)"
| "spec_step cap L_push_closed (xs, c) = (if c then Some (xs, c) else None)"
| "spec_step cap (L_pop x) (xs, c) =
     (case xs of [] \<Rightarrow> None | y # ys \<Rightarrow> if y = x then Some (ys, c) else None)"
| "spec_step cap L_pop_drained (xs, c) = (if c \<and> xs = [] then Some (xs, c) else None)"
| "spec_step cap (L_timeout d now) (xs, c) = (if d \<le> now then Some (xs, c) else None)"
| "spec_step cap L_close (xs, c) = Some (xs, True)"
| "spec_step cap (L_closed b) (xs, c) = (if b = c then Some (xs, c) else None)"
| "spec_step cap (L_size n) (xs, c) = (if n = length xs then Some (xs, c) else None)"

fun spec_run :: "nat \<Rightarrow> 'a lin list \<Rightarrow> 'a list \<times> bool \<Rightarrow> ('a list \<times> bool) option" where
  "spec_run cap [] s = Some s"
| "spec_run cap (e # es) s = Option.bind (spec_step cap e s) (spec_run cap es)"

lemma spec_run_append:
  "spec_run cap (es @ fs) s = Option.bind (spec_run cap es s) (spec_run cap fs)"
proof (induction es arbitrary: s)
  case (Cons e es)
  then show ?case by (cases "spec_step cap e s") simp_all
qed simp

text \<open>The elements pushed and popped in a history.\<close>

fun pushes :: "'a lin list \<Rightarrow> 'a list" where
  "pushes [] = []"
| "pushes (L_push x # es) = x # pushes es"
| "pushes (_ # es) = pushes es"

fun pops :: "'a lin list \<Rightarrow> 'a list" where
  "pops [] = []"
| "pops (L_pop x # es) = x # pops es"
| "pops (_ # es) = pops es"

lemma pushes_append [simp]: "pushes (es @ fs) = pushes es @ pushes fs"
  by (induction es rule: pushes.induct) simp_all

lemma pops_append [simp]: "pops (es @ fs) = pops es @ pops fs"
  by (induction es rule: pops.induct) simp_all

text \<open>A legal history: what was popped followed by what is left is what was in the queue
  followed by what was pushed.\<close>

lemma spec_step_fifo:
  "spec_step cap e (xs, c) = Some (ys, c') \<Longrightarrow> pops [e] @ ys = xs @ pushes [e]"
  by (cases e) (auto split: if_splits list.splits)

lemma spec_run_fifo:
  "spec_run cap es (xs, c) = Some (ys, c') \<Longrightarrow> pops es @ ys = xs @ pushes es"
proof (induction es arbitrary: xs c)
  case Nil
  then show ?case by simp
next
  case (Cons e es)
  then obtain zs d where "spec_step cap e (xs, c) = Some (zs, d)"
    and run: "spec_run cap es (zs, d) = Some (ys, c')"
    by (auto simp: bind_eq_Some_conv)
  then have "pops [e] @ zs = xs @ pushes [e]" by (intro spec_step_fifo)
  with Cons.IH [OF run] show ?case
    using pops_append [of "[e]" es] pushes_append [of "[e]" es] by (metis append_Cons append_Nil append_assoc)
qed

lemma spec_step_bounded:
  "spec_step cap e (xs, c) = Some (ys, c') \<Longrightarrow> length xs \<le> cap \<Longrightarrow> length ys \<le> cap"
  by (cases e) (auto split: if_splits list.splits)

lemma spec_run_bounded:
  "spec_run cap es (xs, c) = Some (ys, c') \<Longrightarrow> length xs \<le> cap \<Longrightarrow> length ys \<le> cap"
proof (induction es arbitrary: xs c)
  case (Cons e es)
  then show ?case by (auto simp: bind_eq_Some_conv dest: spec_step_bounded)
qed simp

text \<open>Once closed, always closed, and nothing more is pushed.\<close>

lemma spec_step_closed:
  "spec_step cap e (xs, True) = Some (ys, c') \<Longrightarrow> c' \<and> pushes [e] = []"
  by (cases e) (auto split: if_splits list.splits)

lemma spec_run_closed:
  "spec_run cap es (xs, True) = Some (ys, c') \<Longrightarrow> c' \<and> pushes es = []"
proof (induction es arbitrary: xs)
  case (Cons e es)
  then obtain zs d where step: "spec_step cap e (xs, True) = Some (zs, d)"
    and run: "spec_run cap es (zs, d) = Some (ys, c')"
    by (auto simp: bind_eq_Some_conv)
  from spec_step_closed [OF step] run Cons.IH [of zs] show ?case
    using pushes_append [of "[e]" es] by simp
qed simp

section \<open>The queue interface\<close>

text \<open>
  What the operations promise about the elements, for any representation: \<open>put\<close> appends when
  it accepts, \<open>take\<close> removes the oldest element, both only when their wait condition is false.
\<close>

locale bounded_fifo =
  fixes elems :: "'q \<Rightarrow> 'a list"
    and shut :: "'q \<Rightarrow> bool"
    and limit :: "'q \<Rightarrow> nat"
    and put_waits :: "'q \<Rightarrow> bool"
    and take_waits :: "'q \<Rightarrow> bool"
    and put :: "'a \<Rightarrow> 'q \<Rightarrow> bool \<times> 'q"
    and take1 :: "'q \<Rightarrow> 'a option \<times> 'q"
    and close :: "'q \<Rightarrow> 'q"
  assumes put_accepts: "\<not> put_waits q \<Longrightarrow> put x q = (True, q') \<Longrightarrow>
      \<not> shut q \<and> length (elems q) < limit q \<and> elems q' = elems q @ [x] \<and> shut q' = shut q \<and> limit q' = limit q"
    and put_refuses: "\<not> put_waits q \<Longrightarrow> put x q = (False, q') \<Longrightarrow> shut q \<and> q' = q"
    and take_gets: "\<not> take_waits q \<Longrightarrow> take1 q = (Some x, q') \<Longrightarrow>
      elems q = x # elems q' \<and> shut q' = shut q \<and> limit q' = limit q"
    and take_drained: "\<not> take_waits q \<Longrightarrow> take1 q = (None, q') \<Longrightarrow> shut q \<and> elems q = [] \<and> q' = q"
    and close_shuts: "shut (close q)" "elems (close q) = elems q" "limit (close q) = limit q"
begin

text \<open>Each critical section is one allowed step of the specification.\<close>

lemma put_spec:
  assumes "\<not> put_waits q" and "put x q = (ok, q')"
  shows "spec_step (limit q) (if ok then L_push x else L_push_closed) (elems q, shut q) =
    Some (elems q', shut q')" and "limit q' = limit q"
proof -
  show "spec_step (limit q) (if ok then L_push x else L_push_closed) (elems q, shut q) =
      Some (elems q', shut q')"
  proof (cases ok)
    case True
    with assms put_accepts [of q x q'] show ?thesis by simp
  next
    case False
    with assms put_refuses [of q x q'] show ?thesis by simp
  qed
  show "limit q' = limit q"
    using assms put_accepts [of q x q'] put_refuses [of q x q'] by (cases ok) auto
qed

lemma take_spec:
  assumes "\<not> take_waits q" and "take1 q = (r, q')"
  shows "spec_step (limit q) (case r of Some x \<Rightarrow> L_pop x | None \<Rightarrow> L_pop_drained)
      (elems q, shut q) = Some (elems q', shut q')" and "limit q' = limit q"
proof -
  show "spec_step (limit q) (case r of Some x \<Rightarrow> L_pop x | None \<Rightarrow> L_pop_drained)
      (elems q, shut q) = Some (elems q', shut q')"
  proof (cases r)
    case None
    with assms take_drained [of q q'] show ?thesis by simp
  next
    case (Some x)
    with assms take_gets [of q x q'] show ?thesis by simp
  qed
  show "limit q' = limit q"
    using assms take_gets [of q _ q'] take_drained [of q q'] by (cases r) auto
qed

lemma close_spec:
  "spec_step (limit q) L_close (elems q, shut q) = Some (elems (close q), shut (close q))"
  by (simp add: close_shuts)

end

interpretation bq: bounded_fifo items is_closed capacity push_waits pop_waits push_body pop_body close_body
  by unfold_locales
    (auto simp: push_body_def pop_body_def close_body_def push_waits_def pop_waits_def
      split: if_splits list.splits)

end
