(* ===== verification/Queue_Threads.thy ===== *)
theory Queue_Threads
  imports Blocking_Queue
begin

text \<open>
  The blocking queue under threads: the mutex \<open>m_\<close>, the condition variables \<open>cv_not_full_\<close> and
  \<open>cv_not_empty_\<close> and every interleaving of calls of \<open>push\<close>, \<open>push_for\<close>, \<open>pop\<close>, \<open>pop_for\<close>,
  \<open>close\<close>, \<open>closed\<close> and \<open>size\<close>
  (\<open>libs/comm/include/comm/utilities/bounded_blocking_queue.hpp\<close>).  A thread's program counter
  says where in the call it is; a step is one thread acquiring the mutex, blocking, running a
  critical section, releasing the mutex, notifying or returning, or the environment: a call,
  the clock, a spurious wake-up, a timeout.  Mutual exclusion is a theorem, not built in: only
  the acquisition steps look at the mutex.  Thread interruption, which Boost offers in its
  wait functions, is in \<open>Queue_Exceptions\<close>.  A wait is ended by a notification or by its timeout,
  not by both: that a wait consumes a notification and still reports its timeout, which POSIX
  allows of the function below it, is not modelled.
\<close>

section \<open>Threads\<close>

datatype cv = Not_full | Not_empty

text \<open>A call; the timeout is \<open>None\<close> for \<open>push\<close> and \<open>pop\<close>, \<open>Some\<close> for \<open>push_for\<close> and \<open>pop_for\<close>.\<close>

datatype 'a call =
    Push 'a "int option"
  | Pop "int option"
  | Close | Closed | Size

datatype 'a ret =
    Pushed bool
  | Popped "'a option"
  | Close_done
  | Is_closed bool
  | Size_is nat
  | Threw

datatype notification = One cv | All cv

text \<open>
  Program counters: \<open>Enter\<close> is before the construction of the lock; \<open>Head\<close> holds the mutex at
  the \<open>while\<close> condition, with the deadline of a timed call; \<open>Waiting\<close> is inside \<open>wait\<close> or
  \<open>timed_wait\<close>; \<open>Relock\<close> has been woken and must acquire the mutex again, the flag being the
  value of \<open>timed_wait\<close>; \<open>Exit\<close> holds the mutex with the result settled and the notifications
  to send; \<open>Notify\<close> has released it.
\<close>

datatype 'a pc =
    Idle
  | Enter "'a call"
  | Head "'a call" "int option"
  | Waiting "'a call" "int option"
  | Relock "'a call" "int option" bool
  | Exit "'a call" "'a ret" "notification list"
  | Notify "'a call" "'a ret" "notification list"

text \<open>The trace records, per thread, the invocation of a call, the moment it takes effect and its
  return; it is not part of the program's state.\<close>

datatype 'a event = Invoke "'a call" | Lin "'a lin" | Return "'a ret"

record ('t, 'a) sys =
  queue :: "'a bounded_blocking_queue"
  owner :: "'t option"
  pcs :: "'t \<Rightarrow> 'a pc"
  clock :: int
  trace :: "('t \<times> 'a event) list"

definition init_sys :: "nat \<Rightarrow> ('t, 'a) sys" where
  "init_sys cap =
     \<lparr>queue = new_queue cap, owner = None, pcs = (\<lambda>_. Idle), clock = 0, trace = []\<rparr>"

definition log :: "'t \<Rightarrow> 'a event \<Rightarrow> ('t, 'a) sys \<Rightarrow> ('t, 'a) sys" where
  "log t e s = s\<lparr>trace := trace s @ [(t, e)]\<rparr>"

definition move :: "'t \<Rightarrow> 'a pc \<Rightarrow> ('t, 'a) sys \<Rightarrow> ('t, 'a) sys" where
  "move t p s = s\<lparr>pcs := (pcs s)(t := p)\<rparr>"

section \<open>The code of a call\<close>

text \<open>\<open>deadline = boost::get_system_time() + timeout\<close>.\<close>

fun deadline :: "int \<Rightarrow> 'a call \<Rightarrow> int option" where
  "deadline now (Push _ timeout) = map_option (\<lambda>d. now + d) timeout"
| "deadline now (Pop timeout) = map_option (\<lambda>d. now + d) timeout"
| "deadline now _ = None"

text \<open>The \<open>while\<close> condition and the condition variable a call waits on.\<close>

fun must_wait :: "'a call \<Rightarrow> 'a bounded_blocking_queue \<Rightarrow> bool" where
  "must_wait (Push _ _) b = push_waits b"
| "must_wait (Pop _) b = pop_waits b"
| "must_wait _ b = False"

fun waits_on :: "'a call \<Rightarrow> cv option" where
  "waits_on (Push _ _) = Some Not_full"
| "waits_on (Pop _) = Some Not_empty"
| "waits_on _ = None"

text \<open>The critical section after the loop: the new queue, the result, the notifications sent
  after the mutex is released and the event that took effect.\<close>

fun act :: "'a call \<Rightarrow> 'a bounded_blocking_queue \<Rightarrow>
    'a bounded_blocking_queue \<times> 'a ret \<times> notification list \<times> 'a lin" where
  "act (Push item _) b =
     (let (ok, b') = push_body item b
      in (b', Pushed ok, if ok then [One Not_empty] else [],
          if ok then L_push item else L_push_closed))"
| "act (Pop _) b =
     (let (out, b') = pop_body b
      in (b', Popped out, if out = None then [] else [One Not_full],
          case out of Some x \<Rightarrow> L_pop x | None \<Rightarrow> L_pop_drained))"
| "act Close b = (close_body b, Close_done, [All Not_empty, All Not_full], L_close)"
| "act Closed b = (b, Is_closed (closed_body b), [], L_closed (closed_body b))"
| "act Size b = (b, Size_is (size_body b), [], L_size (size_body b))"

text \<open>\<open>timed_wait\<close> returned \<open>false\<close>: the call returns \<open>false\<close>.\<close>

fun timed_out :: "'a call \<Rightarrow> 'a ret" where
  "timed_out (Push _ _) = Pushed False"
| "timed_out (Pop _) = Popped None"
| "timed_out Close = Close_done"
| "timed_out Closed = Is_closed False"
| "timed_out Size = Size_is 0"

text \<open>\<open>notify_all\<close> wakes every thread waiting on the condition variable.\<close>

fun wake :: "cv \<Rightarrow> 'a pc \<Rightarrow> 'a pc" where
  "wake v (Waiting c d) = (if waits_on c = Some v then Relock c d True else Waiting c d)"
| "wake v p = p"

fun waiting :: "cv \<Rightarrow> 'a pc \<Rightarrow> bool" where
  "waiting v (Waiting c d) = (waits_on c = Some v)"
| "waiting v p = False"

section \<open>Steps\<close>

datatype ('t, 'a) label =
    Call 't "'a call" | Tick int | Spurious 't | Timeout 't
  | Run 't "'t option"

text \<open>\<open>Run t w\<close> is a step of thread \<open>t\<close> inside a call; \<open>w\<close> is the thread it wakes with
  \<open>notify_one\<close>, if any.\<close>

inductive qstep :: "('t, 'a) label \<Rightarrow> ('t, 'a) sys \<Rightarrow> ('t, 'a) sys \<Rightarrow> bool" where
  call: "pcs s t = Idle \<Longrightarrow> qstep (Call t c) s (log t (Invoke c) (move t (Enter c) s))"
| tick: "qstep (Tick now) s (s\<lparr>clock := now\<rparr>)"
| spurious: "pcs s t = Waiting c d \<Longrightarrow> qstep (Spurious t) s (move t (Relock c d True) s)"
| timeout: "pcs s t = Waiting c (Some d) \<Longrightarrow> d \<le> clock s \<Longrightarrow>
    qstep (Timeout t) s
      (log t (Lin (L_timeout d (clock s))) (move t (Relock c (Some d) False) s))"
| lock: "pcs s t = Enter c \<Longrightarrow> owner s = None \<Longrightarrow>
    qstep (Run t None) s ((move t (Head c (deadline (clock s) c)) s)\<lparr>owner := Some t\<rparr>)"
| wait: "pcs s t = Head c d \<Longrightarrow> must_wait c (queue s) \<Longrightarrow>
    qstep (Run t None) s ((move t (Waiting c d) s)\<lparr>owner := None\<rparr>)"
| act: "pcs s t = Head c d \<Longrightarrow> \<not> must_wait c (queue s) \<Longrightarrow> act c (queue s) = (b, r, ns, e) \<Longrightarrow>
    qstep (Run t None) s (log t (Lin e) ((move t (Exit c r ns) s)\<lparr>queue := b\<rparr>))"
| relock: "pcs s t = Relock c d True \<Longrightarrow> owner s = None \<Longrightarrow>
    qstep (Run t None) s ((move t (Head c d) s)\<lparr>owner := Some t\<rparr>)"
| relock_timeout: "pcs s t = Relock c d False \<Longrightarrow> owner s = None \<Longrightarrow>
    qstep (Run t None) s ((move t (Exit c (timed_out c) []) s)\<lparr>owner := Some t\<rparr>)"
| unlock: "pcs s t = Exit k r ns \<Longrightarrow>
    qstep (Run t None) s ((move t (Notify k r ns) s)\<lparr>owner := None\<rparr>)"
| notify_nobody: "pcs s t = Notify k r (One v # ns) \<Longrightarrow> (\<forall>u. \<not> waiting v (pcs s u)) \<Longrightarrow>
    qstep (Run t None) s (move t (Notify k r ns) s)"
| notify_one: "pcs s t = Notify k r (One v # ns) \<Longrightarrow> pcs s u = Waiting c d \<Longrightarrow> waits_on c = Some v \<Longrightarrow>
    qstep (Run t (Some u)) s (move t (Notify k r ns) (move u (Relock c d True) s))"
| notify_all: "pcs s t = Notify k r (All v # ns) \<Longrightarrow>
    qstep (Run t None) s (move t (Notify k r ns) (s\<lparr>pcs := (\<lambda>u. wake v (pcs s u))\<rparr>))"
| return: "pcs s t = Notify k r [] \<Longrightarrow> qstep (Run t None) s (log t (Return r) (move t Idle s))"

inductive_cases qstep_environment:
  "qstep (Call t c) s s'" "qstep (Tick now) s s'" "qstep (Spurious t) s s'" "qstep (Timeout t) s s'"

inductive_cases qstep_run: "qstep (Run t w) s s'"
inductive_cases qstep_run_nobody: "qstep (Run t None) s s'"
inductive_cases qstep_run_waking: "qstep (Run t (Some u)) s s'"

inductive reachable :: "nat \<Rightarrow> ('t, 'a) sys \<Rightarrow> bool" for cap where
  start: "reachable cap (init_sys cap)"
| step: "reachable cap s \<Longrightarrow> qstep l s s' \<Longrightarrow> reachable cap s'"

lemma move_simps [simp]:
  "queue (move t p s) = queue s" "owner (move t p s) = owner s" "clock (move t p s) = clock s"
  "trace (move t p s) = trace s" "pcs (move t p s) = (pcs s)(t := p)"
  by (simp_all add: move_def)

lemma init_sys_simps [simp]:
  "queue (init_sys cap) = new_queue cap" "owner (init_sys cap) = None"
  "pcs (init_sys cap) = (\<lambda>_. Idle)" "trace (init_sys cap) = []"
  "clock (init_sys cap) = 0"
  by (simp_all add: init_sys_def)

lemma log_simps [simp]:
  "queue (log t e s) = queue s" "owner (log t e s) = owner s" "clock (log t e s) = clock s"
  "trace (log t e s) = trace s @ [(t, e)]" "pcs (log t e s) = pcs s"
  by (simp_all add: log_def)

section \<open>Mutual exclusion\<close>

fun holds :: "'a pc \<Rightarrow> bool" where
  "holds (Head c d) = True"
| "holds (Exit k r ns) = True"
| "holds p = False"

definition mutex_inv :: "('t, 'a) sys \<Rightarrow> bool" where
  "mutex_inv s \<longleftrightarrow> (\<forall>t. holds (pcs s t) \<longleftrightarrow> owner s = Some t)"

lemma holds_wake [simp]: "holds (wake v p) = holds p"
  by (cases p) auto

lemma mutex_inv_update [simp]:
  "mutex_inv (s\<lparr>clock := n\<rparr>) = mutex_inv s" "mutex_inv (log t e s) = mutex_inv s"
  "mutex_inv (s\<lparr>queue := b\<rparr>) = mutex_inv s"
  by (simp_all add: mutex_inv_def)

lemma mutex_inv_move:
  "mutex_inv s \<Longrightarrow> holds p = holds (pcs s t) \<Longrightarrow> mutex_inv (move t p s)"
  by (simp add: mutex_inv_def)

lemma mutex_inv_acquire:
  assumes "mutex_inv s" and "owner s = None" and "holds p"
  shows "mutex_inv ((move t p s)\<lparr>owner := Some t\<rparr>)"
  using assms by (simp add: mutex_inv_def)

lemma mutex_inv_release:
  assumes "mutex_inv s" and "holds (pcs s t)" and "\<not> holds p"
  shows "mutex_inv ((move t p s)\<lparr>owner := None\<rparr>)"
proof -
  from assms(1,2) have "owner s = Some t" by (simp add: mutex_inv_def)
  with assms(1,3) show ?thesis by (simp add: mutex_inv_def)
qed

lemma mutex_inv_wake: "mutex_inv s \<Longrightarrow> mutex_inv (s\<lparr>pcs := \<lambda>u. wake v (pcs s u)\<rparr>)"
  by (simp add: mutex_inv_def)

lemma qstep_mutex: "qstep l s s' \<Longrightarrow> mutex_inv s \<Longrightarrow> mutex_inv s'"
proof (induction rule: qstep.induct)
  case (notify_one s t k r v ns u c d)
  then show ?case by (auto intro!: mutex_inv_move split: if_splits)
next
  case (notify_all s t k r v ns)
  then show ?case by (auto intro!: mutex_inv_move mutex_inv_wake)
qed (auto intro!: mutex_inv_move mutex_inv_acquire mutex_inv_release)

lemma reachable_mutex: "reachable cap s \<Longrightarrow> mutex_inv s"
proof (induction rule: reachable.induct)
  case start
  show ?case by (simp add: mutex_inv_def)
next
  case (step s l s')
  then show ?case by (blast intro: qstep_mutex)
qed

section \<open>Refinement of the sequential specification\<close>

text \<open>The moments of effect in a trace, in order.\<close>

fun lins :: "('t \<times> 'a event) list \<Rightarrow> 'a lin list" where
  "lins [] = []"
| "lins ((t, Lin e) # es) = e # lins es"
| "lins (_ # es) = lins es"

lemma lins_append [simp]: "lins (es @ fs) = lins es @ lins fs"
  by (induction es rule: lins.induct) simp_all

abbreviation events :: "('t, 'a) sys \<Rightarrow> 'a lin list" where
  "events s \<equiv> lins (trace s)"

abbreviation abs_queue :: "'a bounded_blocking_queue \<Rightarrow> 'a list \<times> bool" where
  "abs_queue b \<equiv> (items b, is_closed b)"

lemma act_spec:
  assumes "\<not> must_wait c b" and "act c b = (b', r, ns, e)"
  shows "spec_step (capacity b) e (abs_queue b) = Some (abs_queue b')" "capacity b' = capacity b"
proof (atomize(full), cases c)
  case (Push x d)
  then obtain ok where "push_body x b = (ok, b')" "e = (if ok then L_push x else L_push_closed)"
    using assms(2) by (auto split: prod.splits)
  with assms(1) Push bq.put_spec [of b x ok b']
  show "spec_step (capacity b) e (abs_queue b) = Some (abs_queue b') \<and> capacity b' = capacity b"
    by simp
next
  case (Pop d)
  then obtain out where "pop_body b = (out, b')"
    "e = (case out of Some x \<Rightarrow> L_pop x | None \<Rightarrow> L_pop_drained)"
    using assms(2) by (auto split: prod.splits)
  with assms(1) Pop bq.take_spec [of b out b']
  show "spec_step (capacity b) e (abs_queue b) = Some (abs_queue b') \<and> capacity b' = capacity b"
    by simp
next
  case Close
  with assms(2) show "spec_step (capacity b) e (abs_queue b) = Some (abs_queue b') \<and> capacity b' = capacity b"
    using bq.close_spec [of b] by (auto simp: close_body_def)
qed (use assms(2) in \<open>auto simp: closed_body_def size_body_def\<close>)

text \<open>One step of the threads is no event or one allowed event of the specification.\<close>

lemma qstep_events:
  assumes "qstep l s s'"
  obtains es where "trace s' = trace s @ es"
    and "spec_run (capacity (queue s)) (lins es) (abs_queue (queue s)) = Some (abs_queue (queue s'))"
    and "capacity (queue s') = capacity (queue s)"
  using assms
proof (induction rule: qstep.induct)
  case (call s t c)
  show ?case by (rule call.prems [of "[(t, Invoke c)]"]) simp_all
next
  case (timeout s t c d)
  show ?case
    by (rule timeout.prems [of "[(t, Lin (L_timeout d (clock s)))]"]) (use timeout.hyps in simp_all)
next
  case (act s t c d b r ns e)
  note spec = act_spec [OF act.hyps(2,3)]
  show ?case by (rule act.prems [of "[(t, Lin e)]"]) (use spec in simp_all)
next
  case (return s t k r)
  show ?case by (rule return.prems [of "[(t, Return r)]"]) simp_all
qed auto

definition lin_inv :: "nat \<Rightarrow> ('t, 'a) sys \<Rightarrow> bool" where
  "lin_inv cap s \<longleftrightarrow> capacity (queue s) = cap \<and>
     spec_run cap (events s) ([], False) = Some (abs_queue (queue s))"

lemma lin_inv_step:
  assumes "qstep l s s'" and "lin_inv cap s"
  shows "lin_inv cap s'"
proof -
  obtain es where "trace s' = trace s @ es"
    "spec_run (capacity (queue s)) (lins es) (abs_queue (queue s)) = Some (abs_queue (queue s'))"
    "capacity (queue s') = capacity (queue s)"
    by (rule qstep_events [OF assms(1)])
  with assms(2) show ?thesis by (simp add: lin_inv_def spec_run_append)
qed

lemma reachable_lin: "reachable cap s \<Longrightarrow> lin_inv cap s"
proof (induction rule: reachable.induct)
  case start
  show ?case by (simp add: lin_inv_def new_queue_def)
next
  case (step s l s')
  then show ?case by (blast intro: lin_inv_step)
qed

section \<open>No lost wake-up\<close>

text \<open>
  For each condition variable, \<open>avail\<close> is what its waiters wait for: the elements for
  \<open>cv_not_empty_\<close>, the free places for \<open>cv_not_full_\<close>.  A thread is \<open>pending\<close> if it still has
  to send a \<open>notify_one\<close> on it, \<open>active\<close> if it has been woken or has the mutex at the head of
  the loop.
\<close>

fun avail :: "cv \<Rightarrow> 'a bounded_blocking_queue \<Rightarrow> nat" where
  "avail Not_empty b = length (items b)"
| "avail Not_full b = capacity b - length (items b)"

fun to_send :: "'a pc \<Rightarrow> notification list" where
  "to_send (Exit k r ns) = ns"
| "to_send (Notify k r ns) = ns"
| "to_send p = []"

definition pending :: "cv \<Rightarrow> 'a pc \<Rightarrow> bool" where
  "pending v p \<longleftrightarrow> One v \<in> set (to_send p)"

fun active :: "cv \<Rightarrow> 'a pc \<Rightarrow> bool" where
  "active v (Head c d) = (waits_on c = Some v)"
| "active v (Relock c d woken) = (woken \<and> waits_on c = Some v)"
| "active v p = False"

lemma pending_simps [simp]:
  "pending v (Exit k r ns) \<longleftrightarrow> One v \<in> set ns" "pending v (Notify k r ns) \<longleftrightarrow> One v \<in> set ns"
  "\<not> pending v Idle" "\<not> pending v (Enter c)" "\<not> pending v (Head c d)"
  "\<not> pending v (Waiting c d)" "\<not> pending v (Relock c d w)"
  by (simp_all add: pending_def)

definition signals :: "cv \<Rightarrow> ('t::finite \<Rightarrow> 'a pc) \<Rightarrow> nat" where
  "signals v f = card {u. pending v (f u)} + card {u. active v (f u)}"

definition served :: "cv \<Rightarrow> 'a bounded_blocking_queue \<Rightarrow> ('t::finite \<Rightarrow> 'a pc) \<Rightarrow> bool" where
  "served v b f \<longleftrightarrow> is_closed b \<or> (\<forall>u. \<not> waiting v (f u)) \<or> avail v b \<le> signals v f"

abbreviation weight_of :: "cv \<Rightarrow> 'a pc \<Rightarrow> nat" where
  "weight_of v p \<equiv> (if pending v p then 1 else 0) + (if active v p then 1 else 0)"

lemma signals_upd: "signals v (f(t := p)) + weight_of v (f t) = signals v f + weight_of v p"
  using card_fun_upd [of "pending v" f t p] card_fun_upd [of "active v" f t p]
  unfolding signals_def by linarith

lemma signals_pos: "0 < signals v f \<longleftrightarrow> (\<exists>u. pending v (f u) \<or> active v (f u))"
  using card_class_pos_iff [of "pending v" f] card_class_pos_iff [of "active v" f]
  unfolding signals_def by auto

text \<open>A move of one thread keeps \<open>served\<close> when it starts no wait and when the signals it gives up
  are matched by what it takes.\<close>

lemma served_move:
  assumes "served v b f" and "\<not> waiting v p"
    and "is_closed b \<longrightarrow> is_closed b'"
    and "avail v b' + weight_of v (f t) \<le> avail v b + weight_of v p"
  shows "served v b' (f(t := p))"
proof (cases "is_closed b' \<or> (\<forall>u. \<not> waiting v ((f(t := p)) u))")
  case False
  then obtain u where "u \<noteq> t" and "waiting v (f u)" and "\<not> is_closed b"
    using assms(2,3) by (auto split: if_splits)
  then have "avail v b \<le> signals v f"
    using assms(1) by (auto simp: served_def)
  then have "avail v b' \<le> signals v (f(t := p))"
    using assms(4) signals_upd [of v f t p] by linarith
  then show ?thesis by (simp add: served_def)
qed (unfold served_def, blast)

lemma served_wait:
  assumes "served v b f" and "f t = Head c d" and "must_wait c b"
  shows "served v b (f(t := Waiting c d))"
proof (cases "waits_on c = Some v")
  case True
  then have "avail v b = 0"
    using assms(3) by (cases c; cases v) (auto simp: push_waits_def pop_waits_def)
  then show ?thesis by (simp add: served_def)
next
  case False
  then show ?thesis
    using assms(2) by (intro served_move [OF assms(1)]) simp_all
qed

lemma act_avail:
  assumes "\<not> must_wait c b" and "act c b = (b', r, ns, e)" and "bounded b"
  shows "is_closed b \<longrightarrow> is_closed b'"
    and "is_closed b' \<or> avail v b' + (if waits_on c = Some v then 1 else 0)
           \<le> avail v b + (if One v \<in> set ns then 1 else 0)"
  using assms
  by (cases c; cases v;
      auto simp: push_body_def pop_body_def close_body_def push_waits_def pop_waits_def
        bounded_def closed_body_def split: if_splits list.splits)+

lemma served_act:
  assumes "served v b f" and "f t = Head c d" and "\<not> must_wait c b"
    and "act c b = (b', r, ns, e)" and "bounded b"
  shows "served v b' (f(t := Exit c r ns))"
proof (cases "is_closed b'")
  case True
  then show ?thesis by (simp add: served_def)
next
  case False
  then show ?thesis
    using assms act_avail [OF assms(3,4,5)] by (intro served_move [OF assms(1)]) auto
qed

lemma served_wake_all: "served v b (\<lambda>u. wake v (f u))"
proof -
  have "\<not> waiting v (wake v p)" for p :: "'a pc" by (cases p) auto
  then show ?thesis by (simp add: served_def)
qed

lemma wake_other:
  "v \<noteq> w \<Longrightarrow> waiting v (wake w p) = waiting v p"
  "pending v (wake w p) = pending v p"
  "v \<noteq> w \<Longrightarrow> active v (wake w p) = active v p"
  by (cases p; auto)+

lemma served_wake: "served v b f \<Longrightarrow> served v b (\<lambda>u. wake w (f u))"
  by (cases "v = w") (simp_all add: served_wake_all served_def signals_def wake_other)


text \<open>\<open>notify_one\<close> moves two threads.\<close>

lemma served_move2:
  assumes "served v b f" and "u \<noteq> t" and "\<not> waiting v p" and "\<not> waiting v q"
    and "weight_of v (f t) + weight_of v (f u) \<le> weight_of v p + weight_of v q"
  shows "served v b (f(u := q, t := p))"
proof (cases "is_closed b \<or> (\<forall>x. \<not> waiting v ((f(u := q, t := p)) x))")
  case False
  then obtain x where "waiting v (f x)" and "\<not> is_closed b"
    using assms(3,4) by (auto split: if_splits)
  then have "avail v b \<le> signals v f"
    using assms(1) by (auto simp: served_def)
  then have "avail v b \<le> signals v (f(u := q, t := p))"
    using assms(2,5) signals_upd [of v f u q] signals_upd [of v "f(u := q)" t p]
    unfolding fun_upd_other [OF not_sym [OF assms(2)]] by linarith
  then show ?thesis by (simp add: served_def)
qed (unfold served_def, blast)

lemma qstep_served:
  "qstep l s s' \<Longrightarrow> bounded (queue s) \<Longrightarrow> served v (queue s) (pcs s) \<Longrightarrow>
   served v (queue s') (pcs s')"
proof (induction rule: qstep.induct)
  case (wait s t c d)
  from served_wait [OF wait.prems(2) wait.hyps] show ?case by (simp add: fun_upd_def)
next
  case (act s t c d b r ns e)
  from served_act [OF act.prems(2) act.hyps act.prems(1)] show ?case by (simp add: fun_upd_def)
next
  case (notify_nobody s t k r w ns)
  show ?case
  proof (cases "v = w")
    case True
    with notify_nobody.hyps show ?thesis by (simp add: served_def)
  next
    case False
    have "served v (queue s) ((pcs s)(t := Notify k r ns))"
      using notify_nobody.hyps False by (intro served_move [OF notify_nobody.prems(2)]) auto
    then show ?thesis by (simp add: fun_upd_def)
  qed
next
  case (notify_one s t k r w ns u c d)
  then have "u \<noteq> t" by auto
  then have "served v (queue s) ((pcs s)(u := Relock c d True, t := Notify k r ns))"
    using notify_one.hyps by (intro served_move2 [OF notify_one.prems(2)]) auto
  then show ?case by (simp add: fun_upd_def)
next
  case (notify_all s t k r w ns)
  let ?f = "\<lambda>u. wake w (pcs s u)"
  have "served v (queue s) ?f" using notify_all.prems(2) by (rule served_wake)
  moreover have "?f t = Notify k r (All w # ns)" using notify_all.hyps by simp
  ultimately have "served v (queue s) (?f(t := Notify k r ns))" by (auto intro: served_move)
  then show ?case by (simp add: fun_upd_def)
qed (auto intro!: served_move)

lemma reachable_bounded: "reachable cap s \<Longrightarrow> bounded (queue s)"
  using spec_run_bounded [of cap "events s" "[]" False] reachable_lin [of cap s]
  by (auto simp: lin_inv_def bounded_def)

lemma reachable_served: "reachable cap s \<Longrightarrow> served v (queue s) (pcs s)"
proof (induction rule: reachable.induct)
  case start
  show ?case by (simp add: served_def)
next
  case (step s l s')
  then show ?case by (blast intro: qstep_served reachable_bounded)
qed

text \<open>After \<open>close\<close> the waiters are those that a \<open>notify_all\<close> still to be sent will wake.\<close>

definition released :: "cv \<Rightarrow> 'a bounded_blocking_queue \<Rightarrow> ('t \<Rightarrow> 'a pc) \<Rightarrow> bool" where
  "released v b f \<longleftrightarrow>
     \<not> is_closed b \<or> (\<forall>u. \<not> waiting v (f u)) \<or> (\<exists>t. All v \<in> set (to_send (f t)))"

lemma released_move:
  assumes "released v b f" and "\<not> waiting v p" and "is_closed b' \<longrightarrow> is_closed b"
    and "All v \<in> set (to_send (f t)) \<longrightarrow> All v \<in> set (to_send p)"
  shows "released v b' (f(t := p))"
  using assms unfolding released_def by (metis fun_upd_apply)

lemma released_act:
  assumes "released v b f" and "f t = Head c d" and "\<not> must_wait c b"
    and "act c b = (b', r, ns, e)"
  shows "released v b' (f(t := Exit c r ns))"
proof (cases "c = Close")
  case True
  then have "All v \<in> set ns" using assms(4) by (cases v) auto
  then show ?thesis unfolding released_def by (metis fun_upd_same to_send.simps(1))
next
  case False
  then have "is_closed b' \<longrightarrow> is_closed b"
    using assms(4)
    by (cases c) (auto simp: push_body_def pop_body_def split: if_splits list.splits)
  then show ?thesis using assms(2) by (intro released_move [OF assms(1)]) simp_all
qed

lemma to_send_wake [simp]: "to_send (wake v p) = to_send p"
  by (cases p) simp_all

lemma qstep_released:
  "qstep l s s' \<Longrightarrow> released v (queue s) (pcs s) \<Longrightarrow> released v (queue s') (pcs s')"
proof (induction rule: qstep.induct)
  case (wait s t c d)
  then have "\<not> is_closed (queue s)"
    by (cases c) (auto simp: push_waits_def pop_waits_def)
  then show ?case by (simp add: released_def)
next
  case (act s t c d b r ns e)
  from released_act [OF act.prems act.hyps] show ?case by (simp add: fun_upd_def)
next
  case (notify_nobody s t k r w ns)
  have "released v (queue s) ((pcs s)(t := Notify k r ns))"
    using notify_nobody.hyps by (intro released_move [OF notify_nobody.prems]) auto
  then show ?case by (simp add: fun_upd_def)
next
  case (notify_one s t k r w ns u c d)
  then have "u \<noteq> t" by auto
  have "released v (queue s) ((pcs s)(u := Relock c d True))"
    using notify_one by (intro released_move [OF notify_one.prems]) simp_all
  from released_move [OF this, of "Notify k r ns" "queue s" t] notify_one.hyps \<open>u \<noteq> t\<close>
  show ?case by (simp add: fun_upd_def)
next
  case (notify_all s t k r w ns)
  let ?f = "\<lambda>u. wake w (pcs s u)"
  have none: "\<not> waiting w (?f u)" for u by (cases "pcs s u") auto
  show ?case
  proof (cases "v = w")
    case True
    with none show ?thesis by (simp add: released_def)
  next
    case False
    then have "released v (queue s) ?f"
      using notify_all.prems by (simp add: released_def wake_other)
    moreover have "?f t = Notify k r (All w # ns)" using notify_all.hyps by simp
    ultimately have "released v (queue s) (?f(t := Notify k r ns))"
      using False by (auto intro: released_move)
    then show ?thesis by (simp add: fun_upd_def)
  qed
qed (auto intro!: released_move)

lemma reachable_released: "reachable cap s \<Longrightarrow> released v (queue s) (pcs s)"
proof (induction rule: reachable.induct)
  case start
  show ?case by (simp add: released_def)
next
  case (step s l s')
  then show ?case by (blast intro: qstep_released)
qed

end
