(* ===== verification/Queue_Progress.thy ===== *)
theory Queue_Progress
  imports Queue_Threads
begin

text \<open>
  Progress of the threads of \<open>Queue_Threads\<close>: while a call is neither finished nor blocked, a
  step inside a call is possible; every run of such steps is bounded; each thread's part of the
  trace is a sequence of complete calls followed by the one it is in.  An executable scheduler
  runs the same steps from a list of labels.
\<close>

section \<open>Some thread can always move\<close>

fun busy :: "'a pc \<Rightarrow> bool" where
  "busy Idle = False"
| "busy (Waiting c d) = False"
| "busy p = True"

definition internal :: "('t, 'a) sys \<Rightarrow> ('t, 'a) sys \<Rightarrow> bool" where
  "internal s s' \<longleftrightarrow> (\<exists>t w. qstep (Run t w) s s')"

lemma internalI: "qstep (Run t w) s s' \<Longrightarrow> internal s s'"
  by (auto simp: internal_def)

lemma owner_can_move:
  assumes "holds (pcs s t)"
  shows "\<exists>s'. internal s s'"
proof (cases "pcs s t")
  case (Head c d)
  show ?thesis
  proof (cases "must_wait c (queue s)")
    case True
    with Head show ?thesis by (blast intro: internalI qstep.wait)
  next
    case False
    obtain b r ns e where "act c (queue s) = (b, r, ns, e)" by (metis surj_pair)
    with Head False show ?thesis by (blast intro: internalI qstep.act)
  qed
next
  case (Exit k r ns)
  then show ?thesis by (blast intro: internalI qstep.unlock)
qed (use assms in auto)

lemma waiting_iff: "waiting v p \<longleftrightarrow> (\<exists>c d. p = Waiting c d \<and> waits_on c = Some v)"
  by (cases p) auto

lemma notifier_can_move:
  assumes "pcs s t = Notify k r ns"
  shows "\<exists>s'. internal s s'"
proof (cases ns)
  case Nil
  with assms show ?thesis by (blast intro: internalI qstep.return)
next
  case (Cons n ms)
  show ?thesis
  proof (cases n)
    case (All v)
    with assms Cons show ?thesis by (blast intro: internalI qstep.notify_all)
  next
    case (One v)
    with assms Cons show ?thesis
      by (metis internalI qstep.notify_nobody qstep.notify_one waiting_iff)
  qed
qed

lemma free_mutex_can_move:
  assumes "owner s = None" and "busy (pcs s t)" and "\<not> holds (pcs s t)"
  shows "\<exists>s'. internal s s'"
proof (cases "pcs s t")
  case (Enter c)
  with assms show ?thesis by (blast intro: internalI qstep.lock)
next
  case (Relock c d w)
  show ?thesis
  proof (cases w)
    case True
    with Relock assms(1) have "pcs s t = Relock c d True" by simp
    then show ?thesis using assms(1) by (blast intro: internalI qstep.relock)
  next
    case False
    with Relock assms(1) have "pcs s t = Relock c d False" by simp
    then show ?thesis using assms(1) by (blast intro: internalI qstep.relock_timeout)
  qed
next
  case (Notify k r ns)
  then show ?thesis by (rule notifier_can_move)
qed (use assms in auto)

lemma internal_progress:
  assumes "mutex_inv s" and "busy (pcs s t)"
  shows "\<exists>s'. internal s s'"
proof (cases "owner s")
  case None
  with assms(1) have "\<not> holds (pcs s t)" by (simp add: mutex_inv_def)
  with None assms(2) show ?thesis by (rule free_mutex_can_move)
next
  case (Some u)
  with assms(1) have "holds (pcs s u)" by (simp add: mutex_inv_def)
  then show ?thesis by (rule owner_can_move)
qed

section \<open>Runs inside calls are bounded\<close>

text \<open>A weight per program counter; \<open>n\<close> is the number of threads.  A notification pays for the
  steps of the threads it wakes, and a wait is worth more than a wait that has timed out.\<close>

fun cost :: "nat \<Rightarrow> notification \<Rightarrow> nat" where
  "cost n (One v) = 3"
| "cost n (All v) = 2 * n + 1"

fun head_rank :: "nat \<Rightarrow> 'a call \<Rightarrow> nat" where
  "head_rank n Close = 4 * n + 6"
| "head_rank n c = 6"

fun rank :: "nat \<Rightarrow> 'a pc \<Rightarrow> nat" where
  "rank n Idle = 0"
| "rank n (Enter c) = head_rank n c + 1"
| "rank n (Head c d) = head_rank n c"
| "rank n (Waiting c d) = head_rank n c - 1"
| "rank n (Relock c d w) = (if w then head_rank n c + 1 else 3)"
| "rank n (Exit k r ns) = sum_list (map (cost n) ns) + 2"
| "rank n (Notify k r ns) = sum_list (map (cost n) ns) + 1"

definition weight :: "('t::finite, 'a) sys \<Rightarrow> nat" where
  "weight s = (\<Sum>t \<in> UNIV. rank CARD('t) (pcs s t))"

lemma head_rank_ge: "6 \<le> head_rank n c"
  by (cases c) auto

lemma rank_act: "act c b = (b', r, ns, e) \<Longrightarrow> rank n (Exit c r ns) < rank n (Head c d)"
  by (cases c) (auto split: prod.splits if_splits)

lemma sum_fun_upd:
  fixes f :: "'t::finite \<Rightarrow> 'p" and g :: "'p \<Rightarrow> nat"
  shows "(\<Sum>u \<in> UNIV. g ((f(t := x)) u)) + g (f t) = (\<Sum>u \<in> UNIV. g (f u)) + g x"
proof -
  have "(\<Sum>u \<in> UNIV - {t}. g ((f(t := x)) u)) = (\<Sum>u \<in> UNIV - {t}. g (f u))"
    by (rule sum.cong) auto
  then show ?thesis
    using sum.remove [of UNIV t "\<lambda>u. g ((f(t := x)) u)"] sum.remove [of UNIV t "\<lambda>u. g (f u)"]
    by simp
qed

abbreviation weight_pcs :: "('t::finite \<Rightarrow> 'a pc) \<Rightarrow> nat" where
  "weight_pcs f \<equiv> (\<Sum>t \<in> UNIV. rank CARD('t) (f t))"

lemma weight_upd:
  fixes f :: "'t::finite \<Rightarrow> 'a pc"
  shows "weight_pcs (f(t := p)) + rank CARD('t) (f t) = weight_pcs f + rank CARD('t) p"
  by (rule sum_fun_upd [where g = "rank CARD('t)"])

lemma weight_upd_less:
  fixes f :: "'t::finite \<Rightarrow> 'a pc"
  shows "rank CARD('t) p < rank CARD('t) (f t) \<Longrightarrow> weight_pcs (f(t := p)) < weight_pcs f"
  using weight_upd [of f t p] by linarith

lemma rank_wake: "rank n (wake v p) \<le> rank n p + 2"
  by (cases p) auto

lemma weight_wake:
  fixes f :: "'t::finite \<Rightarrow> 'a pc"
  shows "weight_pcs (\<lambda>u. wake v (f u)) \<le> weight_pcs f + 2 * CARD('t)"
proof -
  have "weight_pcs (\<lambda>u. wake v (f u)) \<le> (\<Sum>u \<in> UNIV. rank CARD('t) (f u) + 2)"
    by (rule sum_mono) (rule rank_wake)
  also have "\<dots> = weight_pcs f + 2 * CARD('t)" by (simp only: sum.distrib) simp
  finally show ?thesis .
qed

lemma weight_notify_one:
  fixes f :: "'t::finite \<Rightarrow> 'a pc"
  assumes "f t = Notify k r (One v # ns)" and "f u = Waiting c d"
  shows "weight_pcs (f(u := Relock c d True, t := Notify k r ns)) < weight_pcs f"
proof -
  let ?g = "f(u := Relock c d True)"
  have "u \<noteq> t" using assms by auto
  then have gt: "?g t = Notify k r (One v # ns)" using assms(1) by simp
  have "weight_pcs ?g \<le> weight_pcs f + 2"
    using weight_upd [of f u "Relock c d True"] head_rank_ge [of "CARD('t)" c] assms(2) by simp
  moreover have "weight_pcs (?g(t := Notify k r ns)) + 3 = weight_pcs ?g"
    using weight_upd [of ?g t "Notify k r ns"] unfolding gt by simp
  ultimately show ?thesis by linarith
qed

lemma internal_weight:
  fixes s :: "('t::finite, 'a) sys"
  assumes "qstep l s s'" and "l = Run t w"
  shows "weight_pcs (pcs s') < weight_pcs (pcs s)"
  using assms
proof (induction rule: qstep.induct)
  case (lock s t c)
  have "weight_pcs ((pcs s)(t := Head c (deadline (clock s) c))) < weight_pcs (pcs s)"
    using lock.hyps by (intro weight_upd_less) simp
  then show ?case by simp
next
  case (wait s t c d)
  have "weight_pcs ((pcs s)(t := Waiting c d)) < weight_pcs (pcs s)"
    using wait.hyps head_rank_ge [of "CARD('t)" c] by (intro weight_upd_less) simp
  then show ?case by simp
next
  case (act s t c d b r ns e)
  have "weight_pcs ((pcs s)(t := Exit c r ns)) < weight_pcs (pcs s)"
    using act.hyps rank_act [OF act.hyps(3), of "CARD('t)" d] by (intro weight_upd_less) simp
  then show ?case by simp
next
  case (relock_timeout s t c d)
  have "weight_pcs ((pcs s)(t := Exit c (timed_out c) [])) < weight_pcs (pcs s)"
    using relock_timeout.hyps head_rank_ge [of "CARD('t)" c] by (intro weight_upd_less) simp
  then show ?case by simp
next
  case (notify_one s t k r v ns u c d)
  from weight_notify_one [OF notify_one.hyps(1,2)] show ?case by simp
next
  case (notify_all s t k r v ns)
  let ?g = "\<lambda>u. wake v (pcs s u)"
  have gt: "?g t = Notify k r (All v # ns)" using notify_all.hyps by simp
  have "weight_pcs (?g(t := Notify k r ns)) + (2 * CARD('t) + 1) = weight_pcs ?g"
    using weight_upd [of ?g t "Notify k r ns"] unfolding gt by simp
  then have "weight_pcs (?g(t := Notify k r ns)) < weight_pcs (pcs s)"
    using weight_wake [of v "pcs s"] by linarith
  then show ?case by simp
next
  case (relock s t c d)
  have "weight_pcs ((pcs s)(t := Head c d)) < weight_pcs (pcs s)"
    using relock.hyps by (intro weight_upd_less) simp
  then show ?case by simp
next
  case (unlock s t k r ns)
  have "weight_pcs ((pcs s)(t := Notify k r ns)) < weight_pcs (pcs s)"
    using unlock.hyps by (intro weight_upd_less) simp
  then show ?case by simp
next
  case (notify_nobody s t k r v ns)
  have "weight_pcs ((pcs s)(t := Notify k r ns)) < weight_pcs (pcs s)"
    using notify_nobody.hyps by (intro weight_upd_less) simp
  then show ?case by simp
next
  case (return s t k r)
  have "weight_pcs ((pcs s)(t := Idle)) < weight_pcs (pcs s)"
    using return.hyps by (intro weight_upd_less) simp
  then show ?case by simp
qed auto

lemma internal_run_bounded:
  fixes s :: "('t::finite, 'a) sys"
  shows "(internal ^^ n) s s' \<Longrightarrow> n + weight s' \<le> weight s"
proof (induction n arbitrary: s')
  case 0
  then show ?case by simp
next
  case (Suc n)
  then obtain s1 where run: "(internal ^^ n) s s1" and "internal s1 s'" by auto
  then have "weight s' < weight s1"
    unfolding weight_def internal_def using internal_weight by blast
  with Suc.IH [OF run] show ?case by linarith
qed


text \<open>Nothing is left to do inside calls: every thread is idle or blocked.\<close>

definition quiescent :: "('t, 'a) sys \<Rightarrow> bool" where
  "quiescent s \<longleftrightarrow> (\<forall>t. \<not> busy (pcs s t))"

lemma reachable_internal_run: "reachable cap s \<Longrightarrow> (internal ^^ n) s s' \<Longrightarrow> reachable cap s'"
proof (induction n arbitrary: s')
  case (Suc n)
  then obtain s1 where "(internal ^^ n) s s1" and "internal s1 s'" by auto
  with Suc show ?case by (auto simp: internal_def intro: reachable.step)
qed simp

lemma stuck_quiescent:
  assumes "reachable cap s" and "\<nexists>s'. internal s s'"
  shows "quiescent s"
  unfolding quiescent_def
proof (rule allI, rule notI)
  fix t
  assume "busy (pcs s t)"
  from internal_progress [OF reachable_mutex [OF assms(1)] this] assms(2) show False by blast
qed

lemma quiescent_no_signals:
  assumes "quiescent s"
  shows "\<not> pending v (pcs s t) \<and> \<not> active v (pcs s t) \<and> to_send (pcs s t) = []"
  using assms [unfolded quiescent_def, rule_format, of t] by (cases "pcs s t") auto

text \<open>In a quiescent state a blocked thread is blocked for a reason: the condition of its loop
  holds.\<close>

lemma quiescent_waiter:
  fixes s :: "('t::finite, 'a) sys"
  assumes "reachable cap s" and "quiescent s" and "pcs s t = Waiting c d" and "waits_on c = Some v"
  shows "must_wait c (queue s)"
proof -
  have w: "waiting v (pcs s t)" using assms(3,4) by simp
  have open_: "\<not> is_closed (queue s)"
    using reachable_released [OF assms(1), of v] w quiescent_no_signals [OF assms(2)]
    by (auto simp: released_def)
  have "signals v (pcs s) = 0"
    using signals_pos [of v "pcs s"] quiescent_no_signals [OF assms(2)] by auto
  then have "avail v (queue s) = 0"
    using reachable_served [OF assms(1), of v] open_ w by (auto simp: served_def)
  then show ?thesis
    using assms(4) open_ by (cases c; cases v) (auto simp: push_waits_def pop_waits_def)
qed

text \<open>Only \<open>push\<close> and \<open>pop\<close> ever wait.\<close>

lemma qstep_waits:
  "qstep l s s' \<Longrightarrow> (\<And>t c d. pcs s t = Waiting c d \<Longrightarrow> waits_on c \<noteq> None) \<Longrightarrow>
   pcs s' t = Waiting c d \<Longrightarrow> waits_on c \<noteq> None"
proof (induction rule: qstep.induct)
  case (wait s u k e)
  then show ?case by (cases k) (auto split: if_splits)
next
  case (notify_all s u k r v ns)
  then show ?case by (cases "pcs s t") (auto split: if_splits)
qed (auto split: if_splits)

lemma reachable_waits: "reachable cap s \<Longrightarrow> pcs s t = Waiting c d \<Longrightarrow> waits_on c \<noteq> None"
proof (induction arbitrary: t c d rule: reachable.induct)
  case start
  then show ?case by simp
next
  case (step s l s')
  from qstep_waits [OF step.hyps(2) _ step.prems] step.IH show ?case by blast
qed

section \<open>What each thread sees\<close>

fun timed :: "'a call \<Rightarrow> bool" where
  "timed (Push _ timeout) = (timeout \<noteq> None)"
| "timed (Pop timeout) = (timeout \<noteq> None)"
| "timed _ = False"

text \<open>The result a call returns for the way it took effect.\<close>

fun completes :: "'a call \<Rightarrow> 'a lin \<Rightarrow> 'a ret \<Rightarrow> bool" where
  "completes (Push x timeout) e r =
     (case e of
        L_push y \<Rightarrow> y = x \<and> r = Pushed True
      | L_push_closed \<Rightarrow> r = Pushed False
      | L_timeout _ _ \<Rightarrow> timeout \<noteq> None \<and> r = Pushed False
      | _ \<Rightarrow> False)"
| "completes (Pop timeout) e r =
     (case e of
        L_pop x \<Rightarrow> r = Popped (Some x)
      | L_pop_drained \<Rightarrow> r = Popped None
      | L_timeout _ _ \<Rightarrow> timeout \<noteq> None \<and> r = Popped None
      | _ \<Rightarrow> False)"
| "completes Close e r = (e = L_close \<and> r = Close_done)"
| "completes Closed e r = (\<exists>b. e = L_closed b \<and> r = Is_closed b)"
| "completes Size e r = (\<exists>n. e = L_size n \<and> r = Size_is n)"

fun complete :: "'a event list \<Rightarrow> bool" where
  "complete [] = True"
| "complete (Invoke c # Lin e # Return r # es) = (completes c e r \<and> complete es)"
| "complete _ = False"

text \<open>The part of a thread's history that belongs to the call it is in.\<close>

fun in_call :: "'a pc \<Rightarrow> 'a event list \<Rightarrow> bool" where
  "in_call Idle es = (es = [])"
| "in_call (Enter c) es = (es = [Invoke c])"
| "in_call (Head c d) es = (es = [Invoke c] \<and> (d \<noteq> None \<longrightarrow> timed c))"
| "in_call (Waiting c d) es = (es = [Invoke c] \<and> (d \<noteq> None \<longrightarrow> timed c))"
| "in_call (Relock c d woken) es =
     (if woken then es = [Invoke c] \<and> (d \<noteq> None \<longrightarrow> timed c)
      else timed c \<and> (\<exists>x y. es = [Invoke c, Lin (L_timeout x y)]))"
| "in_call (Exit c r ns) es = (\<exists>e. es = [Invoke c, Lin e] \<and> completes c e r)"
| "in_call (Notify c r ns) es = (\<exists>e. es = [Invoke c, Lin e] \<and> completes c e r)"

definition history :: "'t \<Rightarrow> ('t \<times> 'a event) list \<Rightarrow> 'a event list" where
  "history t tr = map snd (filter (\<lambda>p. fst p = t) tr)"

lemma history_append [simp]:
  "history t (tr @ [(u, e)]) = history t tr @ (if u = t then [e] else [])"
  by (simp add: history_def)

lemma complete_snoc:
  "complete es \<Longrightarrow> completes c e r \<Longrightarrow> complete (es @ [Invoke c, Lin e, Return r])"
  by (induction es rule: complete.induct) auto

definition hist_ok :: "('t \<times> 'a event) list \<Rightarrow> 't \<Rightarrow> 'a pc \<Rightarrow> bool" where
  "hist_ok tr t p \<longleftrightarrow> (\<exists>es now. history t tr = es @ now \<and> complete es \<and> in_call p now)"

definition hist_inv :: "('t, 'a) sys \<Rightarrow> bool" where
  "hist_inv s \<longleftrightarrow> (\<forall>t. hist_ok (trace s) t (pcs s t))"

lemma hist_inv_update [simp]:
  "hist_inv (s\<lparr>owner := x\<rparr>) = hist_inv s" "hist_inv (s\<lparr>queue := b\<rparr>) = hist_inv s"
  "hist_inv (s\<lparr>clock := n\<rparr>) = hist_inv s"
  by (simp_all add: hist_inv_def)

lemma log_queue:
  "log t e (s\<lparr>queue := b\<rparr>) = (log t e s)\<lparr>queue := b\<rparr>"
  by (simp add: log_def)

lemma hist_inv_move:
  assumes "hist_inv s" and "\<And>now. in_call (pcs s t) now \<Longrightarrow> in_call p now"
  shows "hist_inv (move t p s)"
  using assms unfolding hist_inv_def hist_ok_def by (auto simp: move_def) blast

lemma hist_inv_log:
  assumes "hist_inv s" and "\<And>now. in_call (pcs s t) now \<Longrightarrow> in_call p (now @ [e])"
  shows "hist_inv (log t e (move t p s))"
  unfolding hist_inv_def
proof
  fix u
  from assms(1) have u: "hist_ok (trace s) u (pcs s u)" by (simp add: hist_inv_def)
  show "hist_ok (trace (log t e (move t p s))) u (pcs (log t e (move t p s)) u)"
  proof (cases "u = t")
    case True
    from u True obtain es now where "history t (trace s) = es @ now" "complete es" "in_call (pcs s t) now"
      by (auto simp: hist_ok_def)
    then have "history t (trace (log t e (move t p s))) = es @ (now @ [e])"
      and "in_call p (now @ [e])" using assms(2) by simp_all
    with \<open>complete es\<close> True show ?thesis unfolding hist_ok_def by auto
  next
    case False
    with u show ?thesis by (simp add: hist_ok_def)
  qed
qed

lemma hist_inv_return:
  assumes "hist_inv s" and "pcs s t = Notify k r ns"
  shows "hist_inv (log t (Return r) (move t Idle s))"
  unfolding hist_inv_def
proof
  fix u
  from assms(1) have u: "hist_ok (trace s) u (pcs s u)" by (simp add: hist_inv_def)
  show "hist_ok (trace (log t (Return r) (move t Idle s))) u (pcs (log t (Return r) (move t Idle s)) u)"
  proof (cases "u = t")
    case True
    from u True assms(2) obtain es e where "history t (trace s) = es @ [Invoke k, Lin e]"
      "complete es" "completes k e r"
      by (auto simp: hist_ok_def)
    then show ?thesis using True complete_snoc [of es k e r] by (simp add: hist_ok_def)
  next
    case False
    with u show ?thesis by (simp add: hist_ok_def)
  qed
qed

lemma hist_inv_wake:
  assumes "hist_inv s"
  shows "hist_inv (s\<lparr>pcs := \<lambda>u. wake v (pcs s u)\<rparr>)"
proof -
  have "in_call p now \<Longrightarrow> in_call (wake v p) now" for p :: "'b pc" and now by (cases p) auto
  with assms show ?thesis unfolding hist_inv_def hist_ok_def by fastforce
qed

lemma act_completes: "act c b = (b', r, ns, e) \<Longrightarrow> completes c e r"
  by (cases c) (auto split: prod.splits if_splits option.splits)

lemma deadline_timed: "deadline now c = Some d \<Longrightarrow> timed c"
  by (cases c) auto

lemma timed_out_completes: "timed c \<Longrightarrow> completes c (L_timeout x y) (timed_out c)"
  by (cases c) auto


lemma qstep_hist: "qstep l s s' \<Longrightarrow> hist_inv s \<Longrightarrow> hist_inv s'"
proof (induction rule: qstep.induct)
  case (call s t c)
  then show ?case by (auto intro!: hist_inv_log)
next
  case (timeout s t c d)
  then show ?case by (auto intro!: hist_inv_log)
next
  case (lock s t c)
  then show ?case by (auto intro!: hist_inv_move dest: deadline_timed)
next
  case (act s t c d b r ns e)
  have "hist_inv (log t (Lin e) (move t (Exit c r ns) s))"
    using act.hyps(1) act_completes [OF act.hyps(3)] by (intro hist_inv_log [OF act.prems]) auto
  then show ?case by (simp add: log_queue)
next
  case (relock_timeout s t c d)
  then show ?case by (auto intro!: hist_inv_move timed_out_completes)
next
  case (notify_one s t k r v ns u c d)
  then have "hist_inv (move u (Relock c d True) s)" by (auto intro!: hist_inv_move)
  then show ?case
    by (rule hist_inv_move) (use notify_one.hyps in \<open>auto split: if_splits\<close>)
next
  case (notify_all s t k r v ns)
  have "hist_inv (s\<lparr>pcs := \<lambda>u. wake v (pcs s u)\<rparr>)"
    using notify_all.prems by (rule hist_inv_wake)
  then show ?case by (rule hist_inv_move) (use notify_all.hyps in auto)
next
  case (return s t k r)
  then show ?case by (intro hist_inv_return)
qed (auto intro!: hist_inv_move)

lemma reachable_hist: "reachable cap s \<Longrightarrow> hist_inv s"
proof (induction rule: reachable.induct)
  case start
  show ?case by (simp add: hist_inv_def hist_ok_def history_def)
next
  case (step s l s')
  then show ?case by (blast intro: qstep_hist)
qed

section \<open>An executable scheduler\<close>

text \<open>\<open>exec l s\<close> performs the step \<open>l\<close>, or is \<open>None\<close> where the step is not possible.\<close>

fun exec_run :: "'t::finite \<Rightarrow> 't option \<Rightarrow> ('t, 'a) sys \<Rightarrow> ('t, 'a) sys option" where
  "exec_run t (Some u) s =
     (case pcs s t of
        Notify k r (One v # ns) \<Rightarrow>
          (case pcs s u of
             Waiting c d \<Rightarrow>
               (if waits_on c = Some v
                then Some (move t (Notify k r ns) (move u (Relock c d True) s)) else None)
           | _ \<Rightarrow> None)
      | _ \<Rightarrow> None)"
| "exec_run t None s =
     (case pcs s t of
        Enter c \<Rightarrow>
          (if owner s = None
           then Some ((move t (Head c (deadline (clock s) c)) s)\<lparr>owner := Some t\<rparr>) else None)
      | Head c d \<Rightarrow>
          (if must_wait c (queue s) then Some ((move t (Waiting c d) s)\<lparr>owner := None\<rparr>)
           else (case act c (queue s) of (b, r, ns, e) \<Rightarrow>
                   Some (log t (Lin e) ((move t (Exit c r ns) s)\<lparr>queue := b\<rparr>))))
      | Relock c d woken \<Rightarrow>
          (if owner s = None
           then Some ((move t (if woken then Head c d else Exit c (timed_out c) []) s)\<lparr>owner := Some t\<rparr>)
           else None)
      | Exit k r ns \<Rightarrow> Some ((move t (Notify k r ns) s)\<lparr>owner := None\<rparr>)
      | Notify k r [] \<Rightarrow> Some (log t (Return r) (move t Idle s))
      | Notify k r (One v # ns) \<Rightarrow>
          (if \<forall>u. \<not> waiting v (pcs s u) then Some (move t (Notify k r ns) s) else None)
      | Notify k r (All v # ns) \<Rightarrow>
          Some (move t (Notify k r ns) (s\<lparr>pcs := (\<lambda>u. wake v (pcs s u))\<rparr>))
      | _ \<Rightarrow> None)"

fun exec :: "('t::finite, 'a) label \<Rightarrow> ('t, 'a) sys \<Rightarrow> ('t, 'a) sys option" where
  "exec (Call t c) s =
     (case pcs s t of Idle \<Rightarrow> Some (log t (Invoke c) (move t (Enter c) s)) | _ \<Rightarrow> None)"
| "exec (Tick now) s = Some (s\<lparr>clock := now\<rparr>)"
| "exec (Spurious t) s =
     (case pcs s t of Waiting c d \<Rightarrow> Some (move t (Relock c d True) s) | _ \<Rightarrow> None)"
| "exec (Timeout t) s =
     (case pcs s t of
        Waiting c (Some d) \<Rightarrow>
          (if d \<le> clock s
           then Some (log t (Lin (L_timeout d (clock s))) (move t (Relock c (Some d) False) s))
           else None)
      | _ \<Rightarrow> None)"
| "exec (Run t w) s = exec_run t w s"

lemma exec_run_sound: "exec_run t w s = Some s' \<Longrightarrow> qstep (Run t w) s s'"
proof (cases w)
  case None
  assume run: "exec_run t w s = Some s'"
  show ?thesis
  proof (cases "pcs s t")
    case (Head c d)
    obtain b r ns e where "act c (queue s) = (b, r, ns, e)" by (metis surj_pair)
    with Head run None show ?thesis
      by (auto intro: qstep.wait qstep.act split: if_splits)
  next
    case (Relock c d woken)
    with run None show ?thesis
      by (cases woken) (auto intro: qstep.relock qstep.relock_timeout split: if_splits)
  next
    case (Notify k r ns)
    with run None show ?thesis
      by (auto intro: qstep.return qstep.notify_nobody qstep.notify_all
          split: list.splits notification.splits if_splits)
  qed (use run None in \<open>auto intro: qstep.lock qstep.unlock split: if_splits\<close>)
next
  case (Some u)
  assume "exec_run t w s = Some s'"
  with Some show ?thesis
    by (auto intro: qstep.notify_one split: pc.splits list.splits notification.splits if_splits)
qed

lemma exec_sound: "exec l s = Some s' \<Longrightarrow> qstep l s s'"
proof (cases l)
  case (Run t w)
  assume "exec l s = Some s'"
  with Run show ?thesis by (simp add: exec_run_sound)
qed (auto intro: qstep.call qstep.tick qstep.spurious qstep.timeout
    split: pc.splits option.splits if_splits)

text \<open>The relation and the scheduler agree: a label determines its step.\<close>

lemma exec_complete:
  assumes "qstep l s s'"
  shows "exec l s = Some s'"
proof (cases l)
  case (Run t w)
  show ?thesis
  proof (cases w)
    case None
    with assms Run have step: "qstep (Run t None) s s'" by simp
    show ?thesis unfolding Run None
      by (rule qstep_run_nobody [OF step]) simp_all
  next
    case (Some u)
    with assms Run have step: "qstep (Run t (Some u)) s s'" by simp
    show ?thesis unfolding Run Some
      by (rule qstep_run_waking [OF step]) simp_all
  qed
qed (use assms in \<open>auto elim!: qstep_environment\<close>)

lemma exec_iff: "exec l s = Some s' \<longleftrightarrow> qstep l s s'"
  by (blast intro: exec_sound exec_complete)

corollary qstep_deterministic:
  fixes s :: "('t::finite, 'a) sys"
  shows "qstep l s s1 \<Longrightarrow> qstep l s s2 \<Longrightarrow> s1 = s2"
  using exec_complete [of l s s1] exec_complete [of l s s2] by simp

fun exec_all :: "('t::finite, 'a) label list \<Rightarrow> ('t, 'a) sys \<Rightarrow> ('t, 'a) sys option" where
  "exec_all [] s = Some s"
| "exec_all (l # ls) s = Option.bind (exec l s) (exec_all ls)"

lemma exec_all_reachable:
  "reachable cap s \<Longrightarrow> exec_all ls s = Some s' \<Longrightarrow> reachable cap s'"
  by (induction ls arbitrary: s)
    (auto simp: bind_eq_Some_conv intro: reachable.step exec_sound)

lemma exec_init_reachable: "exec_all ls (init_sys cap) = Some s' \<Longrightarrow> reachable cap s'"
  by (rule exec_all_reachable [OF reachable.start])

end
