(* ===== verification/Queue_Correct.thy ===== *)
theory Queue_Correct
  imports Queue_Progress
begin

text \<open>
  What the bounded blocking queue guarantees in every interleaving: the properties of the
  model of \<open>Queue_Threads\<close>, each from the invariants proved there and in \<open>Queue_Progress\<close>.  The
  witnesses are runs of two threads (\<open>False\<close> and \<open>True\<close>) through the executable scheduler.
\<close>

section \<open>Example runs\<close>

abbreviation two_threads :: "nat \<Rightarrow> (bool, nat) sys" where
  "two_threads cap \<equiv> init_sys cap"

text \<open>Thread \<open>False\<close> pops from the empty queue and blocks.\<close>

definition block_pop :: "(bool, nat) label list" where
  "block_pop = [Call False (Pop None), Run False None, Run False None]"

text \<open>Thread \<open>True\<close> pushes 7 and has released the mutex, its notification not yet sent.\<close>

definition push7 :: "(bool, nat) label list" where
  "push7 = [Call True (Push 7 None), Run True None, Run True None, Run True None]"

text \<open>Thread \<open>True\<close> closes the queue, the notifications not yet sent.\<close>

definition close_now :: "(bool, nat) label list" where
  "close_now = [Call True Close, Run True None, Run True None, Run True None]"

lemmas run_defs = block_pop_def push7_def close_now_def new_queue_def push_waits_def pop_waits_def
  push_body_def pop_body_def close_body_def

lemma run_block_push:
  "\<exists>s. exec_all (block_pop @ push7) (two_threads 1) = Some s \<and>
     pcs s False = Waiting (Pop None) None \<and>
     pcs s True = Notify (Push 7 None) (Pushed True) [One Not_empty] \<and>
     items (queue s) = [7] \<and> \<not> is_closed (queue s) \<and> owner s = None \<and>
     trace s = [(False, Invoke (Pop None)), (True, Invoke (Push 7 None)), (True, Lin (L_push 7))]"
  by (simp add: run_defs)

lemma run_block_close:
  "\<exists>s. exec_all (block_pop @ close_now) (two_threads 1) = Some s \<and>
     pcs s False = Waiting (Pop None) None \<and>
     pcs s True = Notify Close Close_done [All Not_empty, All Not_full] \<and>
     is_closed (queue s)"
  by (simp add: run_defs)

text \<open>The rest of the two runs: the wake-up, the popping thread's return and so on, until both
  threads are idle.\<close>

definition finish_push :: "(bool \<times> bool option) list" where
  "finish_push = [(True, Some False), (True, None), (False, None), (False, None), (False, None),
     (False, None), (False, None)]"

definition finish_close :: "(bool \<times> bool option) list" where
  "finish_close = [(True, None), (True, None), (True, None), (False, None), (False, None),
     (False, None), (False, None)]"

lemma exec_internal:
  "exec_all (map (\<lambda>(t, w). Run t w) ls) s = Some s' \<Longrightarrow> (internal ^^ length ls) s s'"
proof (induction ls arbitrary: s)
  case (Cons x ls)
  obtain t w where x: "x = (t, w)" by fastforce
  with Cons.prems obtain s1 where "exec_run t w s = Some s1"
    and rest: "exec_all (map (\<lambda>(t, w). Run t w) ls) s1 = Some s'"
    by (auto simp: bind_eq_Some_conv)
  then have "internal s s1" by (blast intro: internalI exec_run_sound)
  from relpowp_Suc_I2 [OF this Cons.IH [OF rest]] show ?case
    by (simp only: length_Cons)
qed simp

lemma run_push_finish:
  "\<exists>s s'. exec_all (block_pop @ push7) (two_threads 1) = Some s \<and>
     exec_all (map (\<lambda>(t, w). Run t w) finish_push) s = Some s' \<and>
     pcs s' False = Idle \<and> pcs s' True = Idle \<and>
     history False (trace s') = [Invoke (Pop None), Lin (L_pop 7), Return (Popped (Some 7))]"
  by (simp add: run_defs finish_push_def history_def)

lemma run_close_finish:
  "\<exists>s s'. exec_all (block_pop @ close_now) (two_threads 1) = Some s \<and> is_closed (queue s) \<and>
     exec_all (map (\<lambda>(t, w). Run t w) finish_close) s = Some s' \<and>
     pcs s' False = Idle \<and> pcs s' True = Idle"
  by (simp add: run_defs finish_close_def)

text \<open>Thread \<open>True\<close> fills a queue of capacity 1 and blocks in its second push.\<close>

lemma run_full:
  "\<exists>s. exec_all (push7 @ [Run True None, Run True None, Call True (Push 8 None), Run True None,
       Run True None]) (two_threads 1) = Some s \<and>
     pcs s True = Waiting (Push 8 None) None \<and> pcs s False = Idle"
  by (simp add: run_defs)

text \<open>The blocked pop returns \<open>false\<close> after the close.\<close>

lemma run_drained:
  "\<exists>s. exec_all (block_pop @ close_now @ [Run True None, Run False None, Run False None, Run False None])
       (two_threads 1) = Some s \<and>
     pcs s False = Notify (Pop None) (Popped None) []"
  by (simp add: run_defs)

section \<open>Helper facts\<close>

inductive steps :: "('t, 'a) sys \<Rightarrow> ('t, 'a) sys \<Rightarrow> bool" where
  steps_refl: "steps s s"
| steps_step: "steps s s1 \<Longrightarrow> qstep l s1 s2 \<Longrightarrow> steps s s2"

lemma steps_events:
  assumes "steps s s'"
  shows "\<exists>es. trace s' = trace s @ es \<and>
    spec_run (capacity (queue s)) (lins es) (abs_queue (queue s)) = Some (abs_queue (queue s')) \<and>
    capacity (queue s') = capacity (queue s)"
  using assms
proof (induction rule: steps.induct)
  case (steps_refl s)
  show ?case by (rule exI [of _ "[]"]) simp
next
  case (steps_step s s1 l s2)
  then obtain es where "trace s1 = trace s @ es" "capacity (queue s1) = capacity (queue s)"
    "spec_run (capacity (queue s)) (lins es) (abs_queue (queue s)) = Some (abs_queue (queue s1))"
    by blast
  moreover obtain fs where "trace s2 = trace s1 @ fs"
    "spec_run (capacity (queue s1)) (lins fs) (abs_queue (queue s1)) = Some (abs_queue (queue s2))"
    "capacity (queue s2) = capacity (queue s1)"
    by (rule qstep_events [OF steps_step.hyps(2)])
  ultimately show ?case
    by (intro exI [of _ "es @ fs"]) (simp add: spec_run_append)
qed

lemma lins_history: "Lin e \<in> set (history t tr) \<Longrightarrow> e \<in> set (lins tr)"
  by (induction tr rule: lins.induct) (auto simp: history_def split: if_splits)

lemma drained_for_good:
  assumes "spec_run cap es ([], False) = Some (xs, c)" and "L_pop_drained \<in> set es"
  shows "c \<and> xs = []"
proof -
  from assms(2) obtain as bs where es: "es = as @ L_pop_drained # bs" by (auto simp: in_set_conv_decomp)
  with assms(1) obtain ys d where "spec_run cap (L_pop_drained # bs) (ys, d) = Some (xs, c)"
    by (auto simp: spec_run_append bind_eq_Some_conv)
  then have rest: "spec_run cap bs ([], True) = Some (xs, c)"
    by (auto simp: bind_eq_Some_conv split: if_splits)
  from spec_run_closed [OF rest] spec_run_fifo [OF rest] show ?thesis by simp
qed

lemma closed_for_good:
  assumes "spec_run cap es ([], False) = Some (xs, c)" and "L_push_closed \<in> set es"
  shows c
proof -
  from assms(2) obtain as bs where es: "es = as @ L_push_closed # bs" by (auto simp: in_set_conv_decomp)
  with assms(1) obtain ys d where "spec_run cap (L_push_closed # bs) (ys, d) = Some (xs, c)"
    by (auto simp: spec_run_append bind_eq_Some_conv)
  then have rest: "spec_run cap bs (ys, True) = Some (xs, c)"
    by (auto simp: bind_eq_Some_conv split: if_splits)
  from spec_run_closed [OF rest] show ?thesis by simp
qed

lemma timeout_passed:
  assumes "spec_run cap es ([], False) = Some s" and "L_timeout d now \<in> set es"
  shows "d \<le> now"
proof -
  from assms(2) obtain as bs where es: "es = as @ L_timeout d now # bs" by (auto simp: in_set_conv_decomp)
  with assms(1) obtain ys c where "spec_run cap (L_timeout d now # bs) (ys, c) = Some s"
    by (auto simp: spec_run_append bind_eq_Some_conv)
  then show ?thesis by (auto simp: bind_eq_Some_conv split: if_splits)
qed

lemma last_call_event:
  assumes "reachable cap s" and "pcs s t = Notify k r ns"
  shows "\<exists>e. completes k e r \<and> e \<in> set (events s) \<and> last (history t (trace s)) = Lin e"
proof -
  have "hist_ok (trace s) t (Notify k r ns)"
    using reachable_hist [OF assms(1)] assms(2) by (auto simp: hist_inv_def dest: spec [of _ t])
  then obtain es e where "history t (trace s) = es @ [Invoke k, Lin e]" and "completes k e r"
    by (auto simp: hist_ok_def)
  then show ?thesis using lins_history [of e t "trace s"] by auto
qed

lemma internal_steps: "(internal ^^ n) s s' \<Longrightarrow> steps s s'"
proof (induction n arbitrary: s')
  case (Suc n)
  then show ?case by (auto simp: internal_def intro: steps_step)
qed (auto intro: steps_refl)

lemma steps_closed:
  assumes "steps s s'" and "is_closed (queue s)"
  shows "is_closed (queue s')"
proof -
  from steps_events [OF assms(1)] obtain es where "trace s' = trace s @ es"
    and run: "spec_run (capacity (queue s)) (lins es) (items (queue s), True) =
      Some (abs_queue (queue s'))"
    using assms(2) by auto
  from spec_run_closed [OF run] show ?thesis by simp
qed

lemma run_not_idle: "qstep (Run t w) s s' \<Longrightarrow> pcs s t \<noteq> Idle"
  by (auto elim: qstep_run)

section \<open>Properties\<close>

text \<open>At most one thread is between acquiring the mutex and releasing it, in every reachable
  state of any number of threads; so the critical sections never interleave.\<close>

theorem queue_mutual_exclusion:
  assumes "reachable cap s" and "holds (pcs s t)" and "holds (pcs s u)"
  shows "t = u"
  using reachable_mutex [OF assms(1)] assms(2,3) by (simp add: mutex_inv_def)

theorem queue_mutual_exclusion_witness:
  "\<exists>s. exec_all [Call False (Pop None), Call True (Push 7 None), Run True None] (two_threads 1) = Some s \<and>
     (\<forall>u. holds (pcs s u) = (u = True))"
proof -
  obtain s where run: "exec_all [Call False (Pop None), Call True (Push 7 None), Run True None]
      (two_threads 1) = Some s" and "holds (pcs s True)"
    by simp
  with queue_mutual_exclusion [OF exec_init_reachable [OF run]] show ?thesis by blast
qed

text \<open>C1: The queue is linearizable: in every reachable state the moments of effect of all calls, in
  the order they happened, are an allowed history of the sequential bounded queue that ends in
  the present contents, and each thread's own history is a sequence of complete calls, each
  with one moment of effect between its invocation and its return and with the result
  belonging to it, followed by the call it is in.\<close>

theorem queue_linearizable:
  assumes "reachable cap s"
  shows "spec_run cap (lins (trace s)) ([], False) = Some (items (queue s), is_closed (queue s)) \<and>
    (\<forall>t. \<exists>es now. history t (trace s) = es @ now \<and> complete es \<and> in_call (pcs s t) now)"
  using reachable_lin [OF assms] reachable_hist [OF assms]
  by (auto simp: lin_inv_def hist_inv_def hist_ok_def)

theorem queue_linearizable_witness:
  "\<exists>s. exec_all (block_pop @ push7) (two_threads 1) = Some s \<and>
     spec_run 1 [L_push 7] ([], False) = Some (items (queue s), is_closed (queue s))"
proof -
  obtain s where run: "exec_all (block_pop @ push7) (two_threads 1) = Some s"
    and "lins (trace s) = [L_push 7]"
    using run_block_push by auto
  with queue_linearizable [OF exec_init_reachable [OF run]] show ?thesis by auto
qed

text \<open>Elements come out in the order they went in, none lost and none duplicated (what was
  popped followed by what is stored is what was pushed), and the queue never holds more than
  its capacity; with capacity 0 nothing is ever pushed.\<close>

theorem queue_fifo_within_capacity:
  assumes "reachable cap s"
  shows "pops (lins (trace s)) @ items (queue s) = pushes (lins (trace s)) \<and>
    length (items (queue s)) \<le> cap \<and> (cap = 0 \<longrightarrow> pops (lins (trace s)) = pushes (lins (trace s)))"
proof -
  have run: "spec_run cap (lins (trace s)) ([], False) = Some (items (queue s), is_closed (queue s))"
    using reachable_lin [OF assms] by (simp add: lin_inv_def)
  from spec_run_fifo [OF run] spec_run_bounded [OF run] show ?thesis by auto
qed

theorem queue_fifo_within_capacity_witness:
  "\<exists>s. exec_all (block_pop @ push7) (two_threads 1) = Some s \<and>
     items (queue s) = [7] \<and> pops (lins (trace s)) @ [7] = pushes (lins (trace s))"
proof -
  obtain s where run: "exec_all (block_pop @ push7) (two_threads 1) = Some s"
    and "items (queue s) = [7]"
    using run_block_push by auto
  with queue_fifo_within_capacity [OF exec_init_reachable [OF run]] show ?thesis by auto
qed

text \<open>Closing is final: from a closed state on, whatever the threads do, the queue stays closed
  and no element is ever pushed again.\<close>

theorem queue_close_is_final:
  assumes "is_closed (queue s)" and "steps s s'"
  shows "is_closed (queue s') \<and> pushes (lins (trace s')) = pushes (lins (trace s))"
proof -
  from steps_events [OF assms(2)] obtain es where "trace s' = trace s @ es"
    and run: "spec_run (capacity (queue s)) (lins es) (items (queue s), True) =
      Some (abs_queue (queue s'))"
    using assms(1) by auto
  with spec_run_closed [OF run] show ?thesis by simp
qed

theorem queue_close_is_final_witness:
  "\<exists>s s'. exec_all (block_pop @ close_now) (two_threads 1) = Some s \<and>
     exec (Run True None) s = Some s' \<and> is_closed (queue s')"
proof -
  obtain s where s: "exec_all (block_pop @ close_now) (two_threads 1) = Some s" "is_closed (queue s)"
    and pc: "pcs s True = Notify Close Close_done [All Not_empty, All Not_full]"
    using run_block_close by auto
  then obtain s' where s': "exec (Run True None) s = Some s'" by simp
  have "steps s s'" by (rule steps_step [OF steps_refl exec_sound [OF s']])
  from queue_close_is_final [OF s(2) this] s s' show ?thesis by blast
qed

text \<open>C2: No wake-up is lost: if a thread is blocked although the condition of its loop no longer
  holds, then some other thread is about to notify its condition variable, or another waiter of
  it has already been woken or is at the head of its loop with the mutex.\<close>

theorem queue_no_lost_wakeup:
  fixes s :: "('t::finite, 'a) sys"
  assumes "reachable cap s" and "pcs s t = Waiting c d" and "waits_on c = Some v"
    and "\<not> must_wait c (queue s)"
  shows "\<exists>u. u \<noteq> t \<and> (One v \<in> set (to_send (pcs s u)) \<or> All v \<in> set (to_send (pcs s u)) \<or>
    active v (pcs s u))"
proof -
  have w: "waiting v (pcs s t)" using assms(2,3) by simp
  have "\<exists>u. One v \<in> set (to_send (pcs s u)) \<or> All v \<in> set (to_send (pcs s u)) \<or> active v (pcs s u)"
  proof (cases "is_closed (queue s)")
    case True
    with reachable_released [OF assms(1), of v] w show ?thesis by (auto simp: released_def)
  next
    case False
    then have "0 < avail v (queue s)"
      using assms(3,4) by (cases c; cases v) (auto simp: push_waits_def pop_waits_def)
    then have "0 < signals v (pcs s)"
      using reachable_served [OF assms(1), of v] w False by (auto simp: served_def)
    then show ?thesis by (auto simp: signals_pos pending_def)
  qed
  then obtain u where u: "One v \<in> set (to_send (pcs s u)) \<or> All v \<in> set (to_send (pcs s u)) \<or>
    active v (pcs s u)" by blast
  have "u \<noteq> t" using u assms(2) by (intro notI) simp
  with u show ?thesis by blast
qed

theorem queue_no_lost_wakeup_witness:
  "\<exists>s u. exec_all (block_pop @ push7) (two_threads 1) = Some s \<and> u \<noteq> False \<and>
     (One Not_empty \<in> set (to_send (pcs s u)) \<or> All Not_empty \<in> set (to_send (pcs s u)) \<or>
      active Not_empty (pcs s u))"
proof -
  obtain s where run: "exec_all (block_pop @ push7) (two_threads 1) = Some s"
    and pc: "pcs s False = Waiting (Pop None) None" and "items (queue s) = [7]"
    using run_block_push by auto
  then have "\<not> must_wait (Pop None) (queue s)" by (simp add: pop_waits_def)
  with queue_no_lost_wakeup [OF exec_init_reachable [OF run] pc, of Not_empty] run
  show ?thesis by auto
qed

text \<open>C3: Every call finishes or blocks for a reason: without new calls, timeouts and spurious
  wake-ups the threads take at most \<open>weight s\<close> steps, and when they can take no more, each
  thread has returned or waits in a loop whose condition holds (the queue is open and full for
  a push, open and empty for a pop).\<close>

theorem queue_calls_finish_or_block:
  fixes s :: "('t::finite, 'a) sys"
  assumes "reachable cap s" and "(internal ^^ n) s s'"
  shows "n \<le> weight s \<and>
    ((\<nexists>s''. internal s' s'') \<longrightarrow>
      (\<forall>t. pcs s' t = Idle \<or> (\<exists>c d. pcs s' t = Waiting c d \<and> must_wait c (queue s'))))"
proof (intro conjI impI allI)
  show "n \<le> weight s" using internal_run_bounded [OF assms(2)] by simp
  fix t
  assume "\<nexists>s''. internal s' s''"
  have reach: "reachable cap s'" using assms by (rule reachable_internal_run)
  with \<open>\<nexists>s''. internal s' s''\<close> have quiet: "quiescent s'" by (intro stuck_quiescent)
  show "pcs s' t = Idle \<or> (\<exists>c d. pcs s' t = Waiting c d \<and> must_wait c (queue s'))"
  proof (cases "pcs s' t")
    case (Waiting c d)
    then have "waits_on c \<noteq> None"
      using reachable_waits [OF reach] by blast
    then obtain v where "waits_on c = Some v" by auto
    from quiescent_waiter [OF reach quiet Waiting this] Waiting show ?thesis by blast
  qed (use quiet in \<open>auto simp: quiescent_def dest: spec [of _ t]\<close>)
qed


theorem queue_calls_finish_or_block_witness:
  "\<exists>s s'. exec_all (block_pop @ push7) (two_threads 1) = Some s \<and>
     (internal ^^ 7) s s' \<and> 7 \<le> weight s \<and> (\<forall>t. pcs s' t = Idle)"
proof -
  obtain s s' where run: "exec_all (block_pop @ push7) (two_threads 1) = Some s"
    and fin: "exec_all (map (\<lambda>(t, w). Run t w) finish_push) s = Some s'"
    and idle: "pcs s' False = Idle" "pcs s' True = Idle"
    using run_push_finish by blast
  have "length finish_push = 7" by (simp add: finish_push_def)
  with exec_internal [OF fin] have int7: "(internal ^^ 7) s s'" by metis
  have "\<forall>t. pcs s' t = Idle" using idle by (metis (full_types))
  with queue_calls_finish_or_block [OF exec_init_reachable [OF run] int7] run int7
  show ?thesis by blast
qed

text \<open>C4: \<open>close\<close> releases everybody: once the queue is closed, when the calls in progress have run as
  far as they can, every thread has returned; none stays blocked in \<open>push\<close>, \<open>pop\<close> or their
  timed forms.\<close>

theorem queue_close_releases_all:
  fixes s :: "('t::finite, 'a) sys"
  assumes "reachable cap s" and "is_closed (queue s)"
    and "(internal ^^ n) s s'" and "\<nexists>s''. internal s' s''"
  shows "\<forall>t. pcs s' t = Idle"
proof
  fix t
  have "is_closed (queue s')"
    using steps_closed [OF internal_steps [OF assms(3)] assms(2)] .
  then have no_wait: "\<not> must_wait c (queue s')" for c :: "'a call"
    by (cases c) (simp_all add: push_waits_def pop_waits_def)
  have reach: "reachable cap s'" using assms(1,3) by (rule reachable_internal_run)
  then have quiet: "quiescent s'" using assms(4) by (rule stuck_quiescent)
  show "pcs s' t = Idle"
  proof (cases "pcs s' t")
    case (Waiting c d)
    then obtain v where "waits_on c = Some v"
      using reachable_waits [OF reach] by blast
    from quiescent_waiter [OF reach quiet Waiting this] no_wait show ?thesis by blast
  qed (use quiet in \<open>auto simp: quiescent_def dest: spec [of _ t]\<close>)
qed

theorem queue_close_releases_all_witness:
  "\<exists>s s'. exec_all (block_pop @ close_now) (two_threads 1) = Some s \<and>
     pcs s False = Waiting (Pop None) None \<and> (internal ^^ 7) s s' \<and> (\<forall>t. pcs s' t = Idle)"
proof -
  obtain s s' where run: "exec_all (block_pop @ close_now) (two_threads 1) = Some s"
    and cl: "is_closed (queue s)"
    and fin: "exec_all (map (\<lambda>(t, w). Run t w) finish_close) s = Some s'"
    and idle: "pcs s' False = Idle" "pcs s' True = Idle"
    using run_close_finish by blast
  have "length finish_close = 7" by (simp add: finish_close_def)
  with exec_internal [OF fin] have int7: "(internal ^^ 7) s s'" by metis
  have stuck: "\<nexists>s''. internal s' s''"
    using idle by (metis (full_types) internal_def run_not_idle)
  have "pcs s False = Waiting (Pop None) None" using run run_block_close by auto
  with queue_close_releases_all [OF exec_init_reachable [OF run] cl int7 stuck] run int7
  show ?thesis by blast
qed

text \<open>C31: Producers and consumers cannot block each other: in a queue of positive capacity, when all
  calls have run as far as they can, no thread waits to pop while another waits to push.\<close>

theorem queue_no_mutual_blocking:
  fixes s :: "('t::finite, 'a) sys"
  assumes "reachable cap s" and "0 < cap" and "quiescent s" and "pcs s t = Waiting (Push x a) d"
  shows "pcs s u \<noteq> Waiting (Pop b) e"
proof
  assume u: "pcs s u = Waiting (Pop b) e"
  have "must_wait (Push x a) (queue s)"
    by (rule quiescent_waiter [OF assms(1,3,4)]) simp
  moreover have "must_wait (Pop b) (queue s)"
    by (rule quiescent_waiter [OF assms(1,3) u]) simp
  moreover have "capacity (queue s) = cap"
    using reachable_lin [OF assms(1)] by (simp add: lin_inv_def)
  ultimately show False using assms(2) by (simp add: push_waits_def pop_waits_def)
qed

theorem queue_no_mutual_blocking_witness:
  "\<exists>s. exec_all (push7 @ [Run True None, Run True None, Call True (Push 8 None), Run True None,
       Run True None]) (two_threads 1) = Some s \<and> (\<forall>u b e. pcs s u \<noteq> Waiting (Pop b) e)"
proof -
  obtain s where run: "exec_all (push7 @ [Run True None, Run True None, Call True (Push 8 None),
      Run True None, Run True None]) (two_threads 1) = Some s"
    and pc: "pcs s True = Waiting (Push 8 None) None" and "pcs s False = Idle"
    using run_full by blast
  then have "quiescent s" by (metis (full_types) quiescent_def busy.simps(1,2))
  with queue_no_mutual_blocking [OF exec_init_reachable [OF run] _ this pc] run
  show ?thesis by auto
qed

text \<open>C26: What \<open>false\<close> means: when \<open>push\<close>, \<open>push_for\<close>, \<open>pop\<close> or \<open>pop_for\<close> returns \<open>false\<close>, the queue is
  closed for good (and empty for good, after a pop), or the call was a timed one whose wait
  ended at a time when its deadline had passed.\<close>

theorem queue_false_explained:
  assumes "reachable cap s" and "pcs s t = Notify k r ns"
    and "(k = Pop a \<and> r = Popped None) \<or> (k = Push x a \<and> r = Pushed False)"
  shows "(is_closed (queue s) \<and> (k = Pop a \<longrightarrow> items (queue s) = [])) \<or>
    (a \<noteq> None \<and> (\<exists>d now. last (history t (trace s)) = Lin (L_timeout d now) \<and> d \<le> now))"
proof -
  obtain e where e: "completes k e r" "e \<in> set (events s)" "last (history t (trace s)) = Lin e"
    using last_call_event [OF assms(1,2)] by blast
  have run: "spec_run cap (events s) ([], False) = Some (items (queue s), is_closed (queue s))"
    using reachable_lin [OF assms(1)] by (simp add: lin_inv_def)
  have "e \<in> {L_pop_drained, L_push_closed} \<or> (a \<noteq> None \<and> (\<exists>d now. e = L_timeout d now))"
    and "k = Pop a \<Longrightarrow> e \<noteq> L_push_closed"
    using e(1) assms(3) by (auto split: lin.splits)
  then consider "e = L_pop_drained" | "e = L_push_closed" "k \<noteq> Pop a"
    | d now where "e = L_timeout d now" "a \<noteq> None" by blast
  then show ?thesis
  proof cases
    case 1
    with drained_for_good [OF run] e(2) show ?thesis by blast
  next
    case 2
    with closed_for_good [OF run] e(2) show ?thesis by blast
  next
    case 3
    with timeout_passed [OF run] e(2,3) show ?thesis by blast
  qed
qed

theorem queue_false_explained_witness:
  "\<exists>s. exec_all (block_pop @ close_now @ [Run True None, Run False None, Run False None, Run False None])
       (two_threads 1) = Some s \<and> is_closed (queue s) \<and> items (queue s) = []"
proof -
  obtain s where run: "exec_all (block_pop @ close_now @ [Run True None, Run False None,
      Run False None, Run False None]) (two_threads 1) = Some s"
    and pc: "pcs s False = Notify (Pop None) (Popped None) []"
    using run_drained by blast
  with queue_false_explained [OF exec_init_reachable [OF run] pc, of None] show ?thesis by auto
qed

end
