(* ===== verification/Queue_Timing.thy ===== *)
theory Queue_Timing
  imports Queue_Correct
begin

text \<open>
  The timed operations \<open>push_for\<close> and \<open>pop_for\<close> of the bounded blocking queue
  (\<open>libs/comm/include/comm/utilities/bounded_blocking_queue.hpp\<close>): with the timeouts that are due
  taken too, every run of the threads of \<open>Queue_Threads\<close> inside their calls is bounded, and no
  timed call stays blocked once its deadline has passed.
\<close>

section \<open>Steps the threads take by themselves\<close>

text \<open>A step inside a call, or a \<open>timed_wait\<close> whose deadline has passed.\<close>

definition driven :: "('t, 'a) sys \<Rightarrow> ('t, 'a) sys \<Rightarrow> bool" where
  "driven s s' \<longleftrightarrow> (\<exists>t w. qstep (Run t w) s s') \<or> (\<exists>t. qstep (Timeout t) s s')"

lemma driven_cases:
  assumes "driven s s'"
  obtains t w where "qstep (Run t w) s s'" | t where "qstep (Timeout t) s s'"
  using assms by (auto simp: driven_def)

lemma driven_step: "driven s s' \<Longrightarrow> \<exists>l. qstep l s s'"
  by (auto simp: driven_def)

lemma timeout_weight:
  fixes s :: "('t::finite, 'a) sys"
  assumes "qstep (Timeout t) s s'"
  shows "weight s' < weight s"
proof -
  from assms obtain c d where w: "pcs s t = Waiting c (Some d)"
    and s': "pcs s' = (pcs s)(t := Relock c (Some d) False)"
    by (auto elim: qstep_environment)
  have "weight_pcs ((pcs s)(t := Relock c (Some d) False)) < weight_pcs (pcs s)"
    using w head_rank_ge [of "CARD('t)" c] by (intro weight_upd_less) simp
  then show ?thesis by (simp add: weight_def s')
qed

lemma driven_weight:
  fixes s :: "('t::finite, 'a) sys"
  shows "driven s s' \<Longrightarrow> weight s' < weight s"
  by (erule driven_cases) (auto simp: weight_def timeout_weight [unfolded weight_def] intro: internal_weight)

lemma driven_run_bounded:
  fixes s :: "('t::finite, 'a) sys"
  shows "(driven ^^ n) s s' \<Longrightarrow> n + weight s' \<le> weight s"
proof (induction n arbitrary: s')
  case (Suc n)
  then obtain s1 where run: "(driven ^^ n) s s1" and "driven s1 s'" by auto
  with driven_weight [of s1 s'] Suc.IH [OF run] show ?case by linarith
qed simp

lemma reachable_driven_run: "reachable cap s \<Longrightarrow> (driven ^^ n) s s' \<Longrightarrow> reachable cap s'"
proof (induction n arbitrary: s')
  case (Suc n)
  then obtain s1 where "(driven ^^ n) s s1" and "driven s1 s'" by auto
  with Suc show ?case by (auto dest!: driven_step intro: reachable.step)
qed simp

section \<open>Which calls have a deadline\<close>

fun deadline_ok :: "'a pc \<Rightarrow> bool" where
  "deadline_ok (Head c d) = (timed c \<longleftrightarrow> d \<noteq> None)"
| "deadline_ok (Waiting c d) = (timed c \<longleftrightarrow> d \<noteq> None)"
| "deadline_ok (Relock c d w) = (timed c \<longleftrightarrow> d \<noteq> None)"
| "deadline_ok p = True"

lemma deadline_ok_wake [simp]: "deadline_ok (wake v p) = deadline_ok p"
  by (cases p) auto

lemma timed_deadline: "timed c \<longleftrightarrow> deadline now c \<noteq> None"
  by (cases c) auto

lemma qstep_deadline:
  "qstep l s s' \<Longrightarrow> (\<And>t. deadline_ok (pcs s t)) \<Longrightarrow> deadline_ok (pcs s' u)"
proof (induction rule: qstep.induct)
  case (lock s t c)
  then show ?case using timed_deadline by auto
next
  case (wait s t c d)
  from wait.prems [of t] wait.prems [of u] wait.hyps show ?case by simp
next
  case (relock s t c d)
  from relock.prems [of t] relock.prems [of u] relock.hyps show ?case by simp
next
  case (spurious s t c d)
  from spurious.prems [of t] spurious.prems [of u] spurious.hyps show ?case by simp
next
  case (timeout s t c d)
  from timeout.prems [of t] timeout.prems [of u] timeout.hyps show ?case by simp
next
  case (notify_one s t k r v ns w c d)
  from notify_one.prems [of w] notify_one.prems [of u] notify_one.hyps show ?case by simp
qed auto

lemma reachable_deadline: "reachable cap s \<Longrightarrow> deadline_ok (pcs s t)"
proof (induction arbitrary: t rule: reachable.induct)
  case (step s l s')
  from qstep_deadline [OF step.hyps(2) step.IH] show ?case .
qed simp

section \<open>The property\<close>

text \<open>C8: Timed calls return: when the threads have run as far as they can by themselves, which takes at
  most \<open>weight s\<close> steps, every thread has returned or waits in a loop whose condition holds, and
  if its call is a timed one its deadline has not come yet.\<close>

theorem timed_calls_return:
  fixes s :: "('t::finite, 'a) sys"
  assumes "reachable cap s" and "(driven ^^ n) s s'"
  shows "n \<le> weight s \<and>
    ((\<nexists>s''. driven s' s'') \<longrightarrow>
      (\<forall>t. pcs s' t = Idle \<or>
        (\<exists>c d. pcs s' t = Waiting c d \<and> must_wait c (queue s') \<and>
          (timed c \<longrightarrow> (\<exists>at. d = Some at \<and> clock s' < at)))))"
proof (intro conjI impI allI)
  show "n \<le> weight s" using driven_run_bounded [OF assms(2)] by simp
  fix t
  assume stuck: "\<nexists>s''. driven s' s''"
  have reach: "reachable cap s'" using assms by (rule reachable_driven_run)
  have quiet: "quiescent s'"
    by (rule stuck_quiescent [OF reach]) (use stuck in \<open>auto simp: driven_def internal_def\<close>)
  show "pcs s' t = Idle \<or> (\<exists>c d. pcs s' t = Waiting c d \<and> must_wait c (queue s') \<and>
      (timed c \<longrightarrow> (\<exists>at. d = Some at \<and> clock s' < at)))"
  proof (cases "pcs s' t")
    case (Waiting c d)
    obtain v where "waits_on c = Some v" using reachable_waits [OF reach Waiting] by blast
    note blocked = quiescent_waiter [OF reach quiet Waiting this]
    have "clock s' < at" if "d = Some at" for at
    proof (rule ccontr)
      assume "\<not> clock s' < at"
      then have "qstep (Timeout t) s' (log t (Lin (L_timeout at (clock s'))) (move t (Relock c (Some at) False) s'))"
        using Waiting that by (intro qstep.timeout) auto
      with stuck show False by (auto simp: driven_def)
    qed
    moreover have "timed c \<longleftrightarrow> d \<noteq> None"
      using reachable_deadline [OF reach, of t] Waiting by simp
    ultimately show ?thesis using Waiting blocked by auto
  qed (use quiet in \<open>auto simp: quiescent_def dest: spec [of _ t]\<close>)
qed

text \<open>A \<open>pop_for\<close> with timeout 5 blocks at time 0; at time 9 it gives up.\<close>

definition give_up :: "(bool, nat) label list" where
  "give_up = [Timeout False, Run False None, Run False None, Run False None]"

lemma run_timed_pop:
  "\<exists>s s'. exec_all [Call False (Pop (Some 5)), Run False None, Run False None, Tick 9] (two_threads 1) =
      Some s \<and> pcs s False = Waiting (Pop (Some 5)) (Some 5) \<and>
     exec_all give_up s = Some s' \<and> pcs s' False = Idle"
  by (simp add: run_defs give_up_def)

lemma exec_driven:
  "exec_all ls s = Some s' \<Longrightarrow> list_all (\<lambda>l. \<exists>t w. l = Run t w \<or> l = Timeout t) ls \<Longrightarrow>
    (driven ^^ length ls) s s'"
proof (induction ls arbitrary: s)
  case (Cons l ls)
  then obtain s1 where "exec l s = Some s1" and rest: "exec_all ls s1 = Some s'"
    by (auto simp: bind_eq_Some_conv)
  then have "driven s s1" using exec_sound [of l s s1] Cons.prems(2) by (auto simp: driven_def)
  from relpowp_Suc_I2 [OF this Cons.IH [OF rest]] Cons.prems(2) show ?case
    by (simp only: length_Cons list.pred_inject)
qed simp

theorem timed_calls_return_witness:
  "\<exists>s s'. exec_all [Call False (Pop (Some 5)), Run False None, Run False None, Tick 9] (two_threads 1) =
      Some s \<and> pcs s False = Waiting (Pop (Some 5)) (Some 5) \<and> (driven ^^ 4) s s' \<and>
     4 \<le> weight s \<and> pcs s' False = Idle"
proof -
  obtain s s' where run: "exec_all [Call False (Pop (Some 5)), Run False None, Run False None, Tick 9]
      (two_threads 1) = Some s" "pcs s False = Waiting (Pop (Some 5)) (Some 5)"
    and fin: "exec_all give_up s = Some s'" and idle: "pcs s' False = Idle"
    using run_timed_pop by blast
  have "length give_up = 4" by (simp add: give_up_def)
  moreover have "(driven ^^ length give_up) s s'"
    by (rule exec_driven [OF fin]) (auto simp: give_up_def)
  ultimately have d: "(driven ^^ 4) s s'" by metis
  from timed_calls_return [OF exec_init_reachable [OF run(1)] d] run d idle show ?thesis by blast
qed

end
