(* ===== verification/Queue_Clients.thy ===== *)
theory Queue_Clients
  imports Queue_Correct "HOL-Library.Multiset" "HOL-Library.Sublist"
begin

text \<open>
  A program that uses the bounded blocking queue, the one of
  \<open>tests/src/test_bounded_blocking_queue.cpp\<close> (\<open>producer_consumer_multithreaded\<close>) with any number
  of consumers: one thread pushes a list of elements and closes the queue, every other thread
  pops until \<open>pop\<close> returns \<open>false\<close> and keeps what it got.  The queue is the step relation of
  \<open>Queue_Threads\<close>; spurious wake-ups may happen at any time and are counted.
\<close>

section \<open>The program\<close>

text \<open>The program's own variables: the calls the producer has still to make, what each consumer has
  received, and the consumers that have left their loop.\<close>

record ('t, 'a) clients =
  system :: "('t, 'a) sys"
  todo :: "'a call list"
  received :: "'t \<Rightarrow> 'a list"
  stopped :: "'t set"

definition producer_calls :: "'a list \<Rightarrow> 'a call list" where
  "producer_calls xs = map (\<lambda>x. Push x None) xs @ [Close]"

lemma producer_calls_inject [simp]: "producer_calls xs = producer_calls ys \<longleftrightarrow> xs = ys"
  unfolding producer_calls_def by (simp add: inj_map_eq_map inj_def)

definition start_clients :: "nat \<Rightarrow> 'a list \<Rightarrow> ('t, 'a) clients" where
  "start_clients cap xs =
     \<lparr>system = init_sys cap, todo = producer_calls xs, received = (\<lambda>_. []), stopped = {}\<rparr>"

text \<open>A step of the program with producer \<open>p\<close>: the next call of the producer, the next \<open>pop\<close> of a
  consumer in its loop, a step inside a call, or the return of \<open>pop\<close> to a consumer.\<close>

inductive client_step :: "'t \<Rightarrow> ('t, 'a) clients \<Rightarrow> ('t, 'a) clients \<Rightarrow> bool" for p where
  produce: "pcs (system a) p = Idle \<Longrightarrow> todo a = c # cs \<Longrightarrow>
    client_step p a (a\<lparr>system := log p (Invoke c) (move p (Enter c) (system a)), todo := cs\<rparr>)"
| consume: "t \<noteq> p \<Longrightarrow> pcs (system a) t = Idle \<Longrightarrow> t \<notin> stopped a \<Longrightarrow>
    client_step p a
      (a\<lparr>system := log t (Invoke (Pop None)) (move t (Enter (Pop None)) (system a))\<rparr>)"
| inside: "qstep (Run t w) (system a) s' \<Longrightarrow> t = p \<or> (\<nexists>k r. pcs (system a) t = Notify k r []) \<Longrightarrow>
    client_step p a (a\<lparr>system := s'\<rparr>)"
| got: "t \<noteq> p \<Longrightarrow> pcs (system a) t = Notify k (Popped (Some v)) [] \<Longrightarrow>
    qstep (Run t None) (system a) s' \<Longrightarrow>
    client_step p a
      (a\<lparr>system := s', received := (received a)(t := received a t @ [v])\<rparr>)"
| left: "t \<noteq> p \<Longrightarrow> pcs (system a) t = Notify k (Popped None) [] \<Longrightarrow>
    qstep (Run t None) (system a) s' \<Longrightarrow>
    client_step p a (a\<lparr>system := s', stopped := insert t (stopped a)\<rparr>)"

definition spurious_step :: "('t, 'a) clients \<Rightarrow> ('t, 'a) clients \<Rightarrow> bool" where
  "spurious_step a a' \<longleftrightarrow> (\<exists>t s'. qstep (Spurious t) (system a) s' \<and> a' = a\<lparr>system := s'\<rparr>)"

text \<open>A run with \<open>n\<close> steps of the program and \<open>m\<close> spurious wake-ups.\<close>

inductive client_run :: "'t \<Rightarrow> nat \<Rightarrow> nat \<Rightarrow> ('t, 'a) clients \<Rightarrow> ('t, 'a) clients \<Rightarrow> bool" for p where
  run_start: "client_run p 0 0 a a"
| run_work: "client_run p n m a a1 \<Longrightarrow> client_step p a1 a2 \<Longrightarrow> client_run p (Suc n) m a a2"
| run_spurious: "client_run p n m a a1 \<Longrightarrow> spurious_step a1 a2 \<Longrightarrow> client_run p n (Suc m) a a2"

section \<open>What the other threads see of a step\<close>

fun call_of :: "'a pc \<Rightarrow> 'a call option" where
  "call_of Idle = None"
| "call_of (Enter c) = Some c"
| "call_of (Head c d) = Some c"
| "call_of (Waiting c d) = Some c"
| "call_of (Relock c d w) = Some c"
| "call_of (Exit c r ns) = Some c"
| "call_of (Notify c r ns) = Some c"

fun result_of :: "'a pc \<Rightarrow> 'a ret option" where
  "result_of (Exit c r ns) = Some r"
| "result_of (Notify c r ns) = Some r"
| "result_of p = None"

lemma wake_view [simp]: "call_of (wake v p) = call_of p" "result_of (wake v p) = result_of p"
  by (cases p; simp)+

lemma call_of_None [simp]: "call_of p = None \<longleftrightarrow> p = Idle"
  by (cases p) auto

text \<open>Without timed calls, a step inside a call changes nothing the program sees, performs the
  critical section or returns.\<close>

lemma untimed_relock:
  assumes "hist_inv s" and "pcs s t = Relock c d False"
  shows "timed c"
  using assms by (auto simp: hist_inv_def hist_ok_def dest!: spec [of _ t])

lemma run_cases:
  assumes "qstep (Run t w) s s'" and "hist_inv s"
    and "\<forall>u c. call_of (pcs s u) = Some c \<longrightarrow> \<not> timed c"
  obtains (quiet) "queue s' = queue s" "trace s' = trace s"
      "\<And>u. call_of (pcs s' u) = call_of (pcs s u)" "\<And>u. result_of (pcs s' u) = result_of (pcs s u)"
    | (effect) c d b r ns e where "pcs s t = Head c d" "\<not> must_wait c (queue s)"
      "act c (queue s) = (b, r, ns, e)" "queue s' = b" "trace s' = trace s @ [(t, Lin e)]"
      "pcs s' = (pcs s)(t := Exit c r ns)"
    | (return) k r where "pcs s t = Notify k r []" "queue s' = queue s"
      "trace s' = trace s @ [(t, Return r)]" "pcs s' = (pcs s)(t := Idle)"
  using assms(1)
proof cases
  case (act c d b r ns e)
  show ?thesis by (rule effect [OF act(3-5)]) (simp_all add: act(2))
next
  case (return k r)
  show ?thesis by (rule that(3) [OF return(3)]) (simp_all add: return(2))
next
  case (relock_timeout c d)
  have "timed c" by (rule untimed_relock [OF assms(2) relock_timeout(3)])
  moreover have "\<not> timed c" using assms(3) relock_timeout(3) by (metis call_of.simps(5))
  ultimately show ?thesis by simp
qed (rule quiet; simp)+

section \<open>What has been delivered\<close>

text \<open>The elements a thread took, by the trace.\<close>

definition taken :: "'t \<Rightarrow> ('t \<times> 'a event) list \<Rightarrow> 'a list" where
  "taken t tr = pops (lins (filter (\<lambda>(u, e). u = t) tr))"

lemma taken_snoc [simp]:
  "taken t (tr @ [(u, e)]) = taken t tr @ (if u = t then pops (lins [(u, e)]) else [])"
  by (simp add: taken_def)

lemma taken_Nil [simp]: "taken t [] = []"
  by (simp add: taken_def)

lemma taken_subseq: "subseq (taken t tr) (pops (lins tr))"
proof (induction tr rule: rev_induct)
  case (snoc x tr)
  obtain u e where x: "x = (u, e)" by fastforce
  show ?case
  proof (cases "u = t")
    case True
    with snoc x show ?thesis by (simp add: list_emb_append_mono)
  next
    case False
    with subseq_rev_drop_many [OF snoc] x show ?thesis by simp
  qed
qed simp

lemma taken_mset:
  fixes tr :: "('t::finite \<times> 'a event) list"
  shows "(\<Sum>t \<in> UNIV. mset (taken t tr)) = mset (pops (lins tr))"
proof (induction tr rule: rev_induct)
  case (snoc x tr)
  obtain u e where x: "x = (u, e)" by fastforce
  have "(\<Sum>t \<in> UNIV. mset (taken t (tr @ [(u, e)]))) =
      (\<Sum>t \<in> UNIV. mset (taken t tr) + (if u = t then mset (pops (lins [(u, e)])) else {#}))"
    by (rule sum.cong) auto
  also have "\<dots> = mset (pops (lins tr)) + mset (pops (lins [(u, e)]))"
    using snoc by (simp add: sum.distrib)
  finally show ?case by (simp add: x)
qed simp

section \<open>The invariant\<close>

text \<open>The element a producer's call is about to push, and the one a consumer's call has taken.\<close>

fun in_flight :: "'a call option \<Rightarrow> 'a ret option \<Rightarrow> 'a list" where
  "in_flight (Some (Push x d)) None = [x]"
| "in_flight c r = []"

fun fetched :: "'a ret option \<Rightarrow> 'a list" where
  "fetched (Some (Popped (Some v))) = [v]"
| "fetched r = []"

definition producer_ok ::
    "'a list \<Rightarrow> 'a call list \<Rightarrow> 'a list \<Rightarrow> bool \<Rightarrow> 'a call option \<Rightarrow> 'a ret option \<Rightarrow> bool" where
  "producer_ok xs cs pushed shut c r \<longleftrightarrow>
     (\<exists>ys. cs = producer_calls ys \<and> \<not> shut \<and> (c = None \<or> (\<exists>x. c = Some (Push x None))) \<and>
        pushed @ in_flight c r @ ys = xs) \<or>
     (cs = [] \<and> pushed = xs \<and> (c = None \<or> c = Some Close) \<and> (shut \<longleftrightarrow> \<not> (c = Some Close \<and> r = None)))"

definition consumer_ok ::
    "'a list \<Rightarrow> bool \<Rightarrow> 'a list \<Rightarrow> bool \<Rightarrow> 'a list \<Rightarrow> 'a call option \<Rightarrow> 'a ret option \<Rightarrow> bool" where
  "consumer_ok got out took shut left c r \<longleftrightarrow>
     (c = None \<or> c = Some (Pop None)) \<and> got @ fetched r = took \<and> (out \<longrightarrow> c = None) \<and>
     (out \<or> r = Some (Popped None) \<longrightarrow> shut \<and> left = [])"

definition clients_inv :: "nat \<Rightarrow> 't \<Rightarrow> 'a list \<Rightarrow> ('t, 'a) clients \<Rightarrow> bool" where
  "clients_inv cap p xs a \<longleftrightarrow>
     (let s = system a; b = queue s
      in reachable cap s \<and> taken p (trace s) = [] \<and>
         producer_ok xs (todo a) (pushes (events s)) (is_closed b) (call_of (pcs s p)) (result_of (pcs s p)) \<and>
         (\<forall>t. t \<noteq> p \<longrightarrow> consumer_ok (received a t) (t \<in> stopped a) (taken t (trace s)) (is_closed b) (items b)
            (call_of (pcs s t)) (result_of (pcs s t))))"

lemma clients_invD:
  assumes "clients_inv cap p xs a"
  shows "reachable cap (system a)" "taken p (trace (system a)) = []"
    "producer_ok xs (todo a) (pushes (events (system a))) (is_closed (queue (system a)))
       (call_of (pcs (system a) p)) (result_of (pcs (system a) p))"
    "t \<noteq> p \<Longrightarrow> consumer_ok (received a t) (t \<in> stopped a) (taken t (trace (system a)))
       (is_closed (queue (system a))) (items (queue (system a)))
       (call_of (pcs (system a) t)) (result_of (pcs (system a) t))"
  using assms by (simp_all add: clients_inv_def Let_def)

lemma clients_untimed:
  assumes "clients_inv cap p xs a"
  shows "\<forall>u c. call_of (pcs (system a) u) = Some c \<longrightarrow> \<not> timed c"
proof (intro allI impI)
  fix u c
  assume c: "call_of (pcs (system a) u) = Some c"
  show "\<not> timed c"
  proof (cases "u = p")
    case True
    with clients_invD(3) [OF assms] c show ?thesis by (auto simp: producer_ok_def)
  next
    case False
    from clients_invD(4) [OF assms this] c show ?thesis by (auto simp: consumer_ok_def)
  qed
qed

lemma start_inv: "clients_inv cap p xs (start_clients cap xs)"
  by (simp add: clients_inv_def start_clients_def producer_ok_def consumer_ok_def reachable.start
      new_queue_def)

section \<open>Every step keeps the invariant\<close>

lemma pushes_lins_single [simp]:
  "pushes (lins [(t, Lin e)]) = pushes [e]" "pops (lins [(t, Lin e)]) = pops [e]"
  by simp_all

text \<open>The critical section of the producer's call and of a consumer's call.\<close>

lemma producer_act:
  assumes "producer_ok xs cs ps (is_closed b) (Some c) None" and "act c b = (b', r, ns, e)"
  shows "producer_ok xs cs (ps @ pushes [e]) (is_closed b') (Some c) (Some r)"
    and "pops [e] = []" and "\<not> is_closed b"
  using assms
  by (auto simp: producer_ok_def push_body_def close_body_def split: prod.splits if_splits)

lemma consumer_act:
  assumes "consumer_ok got out took (is_closed b) (items b) (Some c) None"
    and "\<not> must_wait c b" and "act c b = (b', r, ns, e)"
  shows "consumer_ok got out (took @ pops [e]) (is_closed b') (items b') (Some c) (Some r)"
    and "is_closed b' = is_closed b" and "pushes [e] = []"
    and "is_closed b \<and> items b = [] \<longrightarrow> items b' = []"
  using assms
  by (auto simp: consumer_ok_def pop_body_def pop_waits_def split: list.splits)

lemma consumer_ok_open:
  "consumer_ok got out took False left c r \<Longrightarrow> consumer_ok got out took shut left' c r"
  by (auto simp: consumer_ok_def)

lemma consumer_ok_others:
  "consumer_ok got out took shut left c r \<Longrightarrow> (shut \<and> left = [] \<longrightarrow> left' = []) \<Longrightarrow>
   consumer_ok got out took shut left' c r"
  by (auto simp: consumer_ok_def)

lemma inside_inv:
  fixes a :: "('t::finite, 'a) clients"
  assumes inv: "clients_inv cap p xs a" and step: "qstep (Run t w) (system a) s'"
    and stays: "t = p \<or> (\<nexists>k r. pcs (system a) t = Notify k r [])"
  shows "clients_inv cap p xs (a\<lparr>system := s'\<rparr>)"
proof -
  let ?s = "system a"
  note D = clients_invD [OF inv]
  have reach: "reachable cap s'" using D(1) step by (rule reachable.step)
  show ?thesis
  proof (cases rule: run_cases [OF step reachable_hist [OF D(1)] clients_untimed [OF inv],
      case_names quiet effect return])
    case quiet
    with inv reach show ?thesis by (simp add: clients_inv_def Let_def)
  next
    case (effect c d b r ns e)
    show ?thesis
    proof (cases "t = p")
      case True
      have "producer_ok xs (todo a) (pushes (events ?s)) (is_closed (queue ?s)) (Some c) None"
        using D(3) effect(1) True by simp
      note act = producer_act [OF this effect(3)]
      have "consumer_ok (received a u) (u \<in> stopped a) (taken u (trace ?s)) (is_closed b) (items b)
          (call_of (pcs ?s u)) (result_of (pcs ?s u))" if "u \<noteq> p" for u
        using D(4) [OF that] act(3) by (auto intro: consumer_ok_open)
      with effect act D(2) reach True show ?thesis
        by (simp add: clients_inv_def)
    next
      case False
      have "consumer_ok (received a t) (t \<in> stopped a) (taken t (trace ?s)) (is_closed (queue ?s))
          (items (queue ?s)) (Some c) None"
        using D(4) [OF False] effect(1) by simp
      note act = consumer_act [OF this effect(2,3)]
      have "consumer_ok (received a u) (u \<in> stopped a) (taken u (trace ?s)) (is_closed b) (items b)
          (call_of (pcs ?s u)) (result_of (pcs ?s u))" if "u \<noteq> p" for u
        using D(4) [OF that] act(2,4) by (auto intro: consumer_ok_others)
      with effect act D(2,3) reach False show ?thesis
        by (simp add: clients_inv_def)
    qed
  next
    case (return k r)
    with stays have "t = p" by blast
    with return inv reach show ?thesis
      by (auto simp: clients_inv_def Let_def producer_ok_def)
  qed
qed

lemma return_step:
  "qstep (Run t w) s s' \<Longrightarrow> pcs s t = Notify k r [] \<Longrightarrow> s' = log t (Return r) (move t Idle s)"
  by (erule qstep_run) simp_all

lemma client_step_inv:
  fixes a :: "('t::finite, 'a) clients"
  assumes "client_step p a a'" and "clients_inv cap p xs a"
  shows "clients_inv cap p xs a'"
  using assms(1)
proof cases
  case (produce c cs)
  have "reachable cap (log p (Invoke c) (move p (Enter c) (system a)))"
    using clients_invD(1) [OF assms(2)] qstep.call [OF produce(2)] by (rule reachable.step)
  moreover have "todo a \<noteq> []" using produce by simp
  then obtain ys where "todo a = producer_calls ys"
    using clients_invD(3) [OF assms(2)] by (auto simp: producer_ok_def)
  ultimately show ?thesis
    using assms(2) produce
    by (cases ys) (auto simp: clients_inv_def Let_def producer_ok_def producer_calls_def)
next
  case (consume t)
  have "reachable cap (log t (Invoke (Pop None)) (move t (Enter (Pop None)) (system a)))"
    using clients_invD(1) [OF assms(2)] qstep.call [OF consume(3)] by (rule reachable.step)
  with assms(2) consume show ?thesis
    by (auto simp: clients_inv_def Let_def consumer_ok_def)
next
  case (inside t w s')
  then show ?thesis using inside_inv [OF assms(2)] by blast
next
  case (got t k v s')
  have "reachable cap s'" using clients_invD(1) [OF assms(2)] got(4) by (rule reachable.step)
  with return_step [OF got(4,3)] assms(2) got show ?thesis
    by (auto simp: clients_inv_def Let_def consumer_ok_def)
next
  case (left t k s')
  have "reachable cap s'" using clients_invD(1) [OF assms(2)] left(4) by (rule reachable.step)
  with return_step [OF left(4,3)] assms(2) left show ?thesis
    by (auto simp: clients_inv_def Let_def consumer_ok_def)
qed

lemma spurious_inv:
  assumes "spurious_step a a'" and "clients_inv cap p xs a"
  shows "clients_inv cap p xs a'"
proof -
  obtain t s' where step: "qstep (Spurious t) (system a) s'" and a': "a' = a\<lparr>system := s'\<rparr>"
    using assms(1) by (auto simp: spurious_step_def)
  have "reachable cap s'" using clients_invD(1) [OF assms(2)] step by (rule reachable.step)
  moreover from step obtain c d where "pcs (system a) t = Waiting c d"
    and s': "s' = move t (Relock c d True) (system a)"
    by (rule qstep_environment)
  then have "call_of (pcs s' u) = call_of (pcs (system a) u)"
    and "result_of (pcs s' u) = result_of (pcs (system a) u)" for u by simp_all
  ultimately show ?thesis using s' a' assms(2) by (simp add: clients_inv_def Let_def del: fun_upd_apply)
qed

lemma client_run_inv:
  fixes a :: "('t::finite, 'a) clients"
  assumes "client_run p n m a a'" and "clients_inv cap p xs a"
  shows "clients_inv cap p xs a'"
  using assms by (induction rule: client_run.induct) (auto intro: client_step_inv spurious_inv)

section \<open>How long the program runs\<close>

text \<open>The calls still to come: the producer's, one per element not yet popped, and one per consumer
  that will call \<open>pop\<close> before it pops another element.\<close>

fun credit :: "bool \<Rightarrow> 'a call option \<Rightarrow> 'a ret option \<Rightarrow> nat" where
  "credit out None r = (if out then 0 else 1)"
| "credit out (Some c) r = length (fetched r)"

abbreviation credit_of :: "('t, 'a) clients \<Rightarrow> 't \<Rightarrow> nat" where
  "credit_of a t \<equiv> credit (t \<in> stopped a) (call_of (pcs (system a) t)) (result_of (pcs (system a) t))"

definition calls_left :: "'t::finite \<Rightarrow> 'a list \<Rightarrow> ('t, 'a) clients \<Rightarrow> nat" where
  "calls_left p xs a =
     length (todo a) + (length xs - length (pops (events (system a)))) + (\<Sum>t \<in> UNIV - {p}. credit_of a t)"

definition potential :: "'t::finite \<Rightarrow> 'a list \<Rightarrow> ('t, 'a) clients \<Rightarrow> nat" where
  "potential p xs a = (4 * CARD('t) + 8) * calls_left p xs a + weight (system a)"

lemma popped_bound:
  assumes "clients_inv cap p xs a"
  shows "length (pops (events (system a))) \<le> length xs"
proof -
  have "pops (events (system a)) @ items (queue (system a)) = pushes (events (system a))"
    using reachable_lin [OF clients_invD(1) [OF assms]] spec_run_fifo [of cap "events (system a)" "[]" False]
    by (auto simp: lin_inv_def)
  then have "length (pops (events (system a))) \<le> length (pushes (events (system a)))"
    by (metis length_append le_add1)
  also have "\<dots> \<le> length xs"
    using clients_invD(3) [OF assms] by (auto simp: producer_ok_def)
  finally show ?thesis .
qed

lemma sum_others:
  fixes f g :: "'t::finite \<Rightarrow> nat"
  assumes "t \<noteq> p" and "\<And>u. u \<noteq> t \<Longrightarrow> g u = f u"
  shows "(\<Sum>u \<in> UNIV - {p}. g u) + f t = (\<Sum>u \<in> UNIV - {p}. f u) + g t"
proof -
  have "(\<Sum>u \<in> UNIV - {p} - {t}. g u) = (\<Sum>u \<in> UNIV - {p} - {t}. f u)"
    using assms(2) by (intro sum.cong) auto
  then show ?thesis
    using sum.remove [of "UNIV - {p}" t g] sum.remove [of "UNIV - {p}" t f] assms(1) by simp
qed

lemma call_weight:
  fixes s :: "('t::finite, 'a) sys"
  assumes "pcs s t = Idle"
  shows "weight (log t e (move t (Enter c) s)) \<le> weight s + (4 * CARD('t) + 7)"
  using weight_upd [of "pcs s" t "Enter c"] assms by (cases c) (simp_all add: weight_def)

lemma run_weight:
  fixes s :: "('t::finite, 'a) sys"
  shows "qstep (Run t w) s s' \<Longrightarrow> weight s' < weight s"
  unfolding weight_def by (rule internal_weight) simp_all

lemma inside_calls:
  fixes a :: "('t::finite, 'a) clients"
  assumes inv: "clients_inv cap p xs a" and step: "qstep (Run t w) (system a) s'"
    and stays: "t = p \<or> (\<nexists>k r. pcs (system a) t = Notify k r [])"
  shows "calls_left p xs (a\<lparr>system := s'\<rparr>) = calls_left p xs a"
proof (cases rule: run_cases [OF step reachable_hist [OF clients_invD(1) [OF inv]] clients_untimed [OF inv],
      case_names quiet effect return])
  case quiet
  then show ?thesis by (simp add: calls_left_def)
next
  case (effect c d b r ns e)
  show ?thesis
  proof (cases "t = p")
    case True
    have "producer_ok xs (todo a) (pushes (events (system a))) (is_closed (queue (system a))) (Some c) None"
      using clients_invD(3) [OF inv] effect(1) True by simp
    from producer_act(2) [OF this effect(3)] effect(5,6) True show ?thesis
      by (simp add: calls_left_def)
  next
    case False
    let ?a = "a\<lparr>system := s'\<rparr>"
    have ok: "consumer_ok (received a t) (t \<in> stopped a) (taken t (trace (system a)))
        (is_closed (queue (system a))) (items (queue (system a))) (Some c) None"
      using clients_invD(4) [OF inv False] effect(1) by simp
    then have c: "c = Pop None" by (simp add: consumer_ok_def)
    have "length (pops (events s')) \<le> length xs"
      using popped_bound [OF inside_inv [OF inv step stays]] by simp
    moreover have "length (fetched (Some r)) = length (pops [e])"
      using effect(3) c by (auto simp: pop_body_def split: list.splits)
    moreover have "(\<Sum>u \<in> UNIV - {p}. credit_of ?a u) + credit_of a t =
        (\<Sum>u \<in> UNIV - {p}. credit_of a u) + credit_of ?a t"
      by (rule sum_others [OF False]) (simp add: effect(6))
    ultimately show ?thesis
      using effect(1,5,6) by (simp add: calls_left_def del: fun_upd_apply) simp
  qed
next
  case (return k r)
  with stays have "t = p" by blast
  with return show ?thesis by (simp add: calls_left_def)
qed

lemma client_step_potential:
  fixes a :: "('t::finite, 'a) clients"
  assumes "client_step p a a'" and inv: "clients_inv cap p xs a"
  shows "potential p xs a' < potential p xs a"
  using assms(1)
proof cases
  case (produce c cs)
  have same: "(\<Sum>t \<in> UNIV - {p}. credit_of a' t) = (\<Sum>t \<in> UNIV - {p}. credit_of a t)"
    by (rule sum.cong) (simp_all add: produce(1))
  have "calls_left p xs a = Suc (calls_left p xs a')"
    using produce same by (simp add: calls_left_def)
  moreover have "weight (system a') \<le> weight (system a) + (4 * CARD('t) + 7)"
    using call_weight [OF produce(2)] produce(1) by simp
  ultimately show ?thesis by (simp add: potential_def)
next
  case (consume t)
  have "(\<Sum>u \<in> UNIV - {p}. credit_of a' u) + credit_of a t =
      (\<Sum>u \<in> UNIV - {p}. credit_of a u) + credit_of a' t"
    by (rule sum_others [OF consume(2)]) (simp add: consume(1))
  moreover have "credit_of a t = 1" "credit_of a' t = 0"
    using consume by simp_all
  ultimately have "calls_left p xs a = Suc (calls_left p xs a')"
    using consume(1) by (simp add: calls_left_def del: fun_upd_apply)
  moreover have "weight (system a') \<le> weight (system a) + (4 * CARD('t) + 7)"
    using call_weight [OF consume(3)] consume(1) by simp
  ultimately show ?thesis by (simp add: potential_def)
next
  case (inside t w s')
  with inside_calls [OF inv inside(2,3)] run_weight [OF inside(2)] show ?thesis
    by (simp add: potential_def)
next
  case (got t k v s')
  have s': "s' = log t (Return (Popped (Some v))) (move t Idle (system a))"
    by (rule return_step [OF got(4,3)])
  have "t \<notin> stopped a"
    using clients_invD(4) [OF inv got(2)] got(3) by (auto simp: consumer_ok_def)
  then have "credit_of a' t = credit_of a t" using got(1,3) s' by simp
  moreover have "(\<Sum>u \<in> UNIV - {p}. credit_of a' u) + credit_of a t =
      (\<Sum>u \<in> UNIV - {p}. credit_of a u) + credit_of a' t"
    by (rule sum_others [OF got(2)]) (simp add: got(1) s')
  ultimately have "calls_left p xs a' = calls_left p xs a"
    using got(1) s' by (simp add: calls_left_def del: fun_upd_apply)
  with got(1) run_weight [OF got(4)] show ?thesis by (simp add: potential_def)
next
  case (left t k s')
  have s': "s' = log t (Return (Popped None)) (move t Idle (system a))"
    by (rule return_step [OF left(4,3)])
  have "credit_of a' t = 0" "credit_of a t = 0" using left(1,3) s' by simp_all
  moreover have "(\<Sum>u \<in> UNIV - {p}. credit_of a' u) + credit_of a t =
      (\<Sum>u \<in> UNIV - {p}. credit_of a u) + credit_of a' t"
    by (rule sum_others [OF left(2)]) (simp add: left(1) s')
  ultimately have "calls_left p xs a' = calls_left p xs a"
    using left(1) s' by (simp add: calls_left_def del: fun_upd_apply)
  with left(1) run_weight [OF left(4)] show ?thesis by (simp add: potential_def)
qed

lemma spurious_potential:
  fixes a :: "('t::finite, 'a) clients"
  assumes "spurious_step a a'"
  shows "potential p xs a' \<le> potential p xs a + 2"
proof -
  obtain t s' where "qstep (Spurious t) (system a) s'" and a': "a' = a\<lparr>system := s'\<rparr>"
    using assms by (auto simp: spurious_step_def)
  then obtain c d where w: "pcs (system a) t = Waiting c d"
    and s': "s' = move t (Relock c d True) (system a)" by (blast elim: qstep_environment)
  have "calls_left p xs a' = calls_left p xs a"
    unfolding calls_left_def using w
    by (intro arg_cong2 [where f = "(+)"] sum.cong) (simp_all add: a' s')
  moreover have "weight s' \<le> weight (system a) + 2"
    using weight_upd [of "pcs (system a)" t "Relock c d True"] head_rank_ge [of "CARD('t)" c] w
    by (simp add: weight_def s')
  ultimately show ?thesis by (simp add: potential_def a')
qed

lemma client_run_potential:
  fixes a :: "('t::finite, 'a) clients"
  assumes "client_run p n m a a'" and "clients_inv cap p xs a"
  shows "n + potential p xs a' \<le> potential p xs a + 2 * m"
  using assms
proof (induction rule: client_run.induct)
  case (run_work n m a a1 a2)
  from client_step_potential [OF run_work.hyps(2) client_run_inv [OF run_work.hyps(1) run_work.prems]]
    run_work.IH [OF run_work.prems]
  show ?case by linarith
next
  case (run_spurious n m a a1 a2)
  from spurious_potential [OF run_spurious.hyps(2), of p xs] run_spurious.IH [OF run_spurious.prems]
  show ?case by simp
qed simp

lemma start_potential:
  "potential p xs (start_clients cap xs :: ('t::finite, 'a) clients) =
     (4 * CARD('t) + 8) * (2 * length xs + CARD('t))"
proof -
  have "1 \<le> CARD('t)" by (simp add: Suc_leI)
  then have "calls_left p xs (start_clients cap xs :: ('t, 'a) clients) = 2 * length xs + CARD('t)"
    by (simp add: calls_left_def start_clients_def producer_calls_def card_Diff_singleton)
  then show ?thesis by (simp add: potential_def start_clients_def weight_def)
qed

section \<open>When the program can do nothing more\<close>

lemma pop_returns:
  assumes "hist_inv s" and "pcs s t = Notify (Pop None) r ns"
  shows "\<exists>out. r = Popped out"
proof -
  have "hist_ok (trace s) t (pcs s t)" using assms(1) by (simp add: hist_inv_def)
  then obtain e where "completes (Pop None) e r" using assms(2) by (auto simp: hist_ok_def)
  then show ?thesis by (cases e) auto
qed

lemma internal_client_step:
  fixes a :: "('t::finite, 'a) clients"
  assumes inv: "clients_inv cap p xs a" and "internal (system a) s'"
  shows "\<exists>a'. client_step p a a'"
proof -
  obtain t w where step: "qstep (Run t w) (system a) s'" using assms(2) by (auto simp: internal_def)
  show ?thesis
  proof (cases "t = p \<or> (\<nexists>k r. pcs (system a) t = Notify k r [])")
    case True
    from client_step.inside [OF step this] show ?thesis ..
  next
    case False
    then obtain k r where "t \<noteq> p" and n: "pcs (system a) t = Notify k r []" by blast
    with clients_invD(4) [OF inv this(1)] have "k = Pop None" by (simp add: consumer_ok_def)
    with n pop_returns [OF reachable_hist [OF clients_invD(1) [OF inv]], of t] obtain out where
      out: "pcs (system a) t = Notify k (Popped out) []" by blast
    have ret: "qstep (Run t None) (system a) (log t (Return (Popped out)) (move t Idle (system a)))"
      by (rule qstep.return [OF out])
    show ?thesis
    proof (cases out)
      case None
      from client_step.left [OF \<open>t \<noteq> p\<close> out [unfolded None] ret] show ?thesis ..
    next
      case (Some v)
      from client_step.got [OF \<open>t \<noteq> p\<close> out [unfolded Some] ret] show ?thesis ..
    qed
  qed
qed

lemma stuck_clients:
  fixes a :: "('t::finite, 'a) clients"
  assumes inv: "clients_inv cap p xs a" and "0 < cap" and "c \<noteq> p"
    and stuck: "\<nexists>a'. client_step p a a'"
  shows "todo a = []" "\<forall>t. pcs (system a) t = Idle" "\<forall>t. t \<noteq> p \<longrightarrow> t \<in> stopped a"
    "pops (events (system a)) = xs"
proof -
  let ?s = "system a"
  note D = clients_invD [OF inv]
  have quiet: "quiescent ?s"
    by (rule stuck_quiescent [OF D(1)]) (use internal_client_step [OF inv] stuck in blast)
  have cases_pc: "pcs ?s t = Idle \<or> (\<exists>k d. pcs ?s t = Waiting k d \<and> must_wait k (queue ?s))" for t
  proof (cases "pcs ?s t")
    case (Waiting k d)
    with reachable_waits [OF D(1) this] quiescent_waiter [OF D(1) quiet this] show ?thesis by blast
  qed (use quiet in \<open>auto simp: quiescent_def dest: spec [of _ t]\<close>)
  have cons: "(pcs ?s t = Idle \<and> t \<in> stopped a \<and> is_closed (queue ?s) \<and> items (queue ?s) = []) \<or>
      (items (queue ?s) = [] \<and> \<not> is_closed (queue ?s) \<and> pcs ?s t \<noteq> Idle)" if "t \<noteq> p" for t
  proof (cases "pcs ?s t = Idle")
    case True
    with client_step.consume [OF that True] stuck have "t \<in> stopped a" by blast
    with True D(4) [OF that] show ?thesis by (simp add: consumer_ok_def)
  next
    case False
    with cases_pc [of t] D(4) [OF that] show ?thesis by (auto simp: consumer_ok_def pop_waits_def)
  qed
  have cap: "capacity (queue ?s) = cap" using reachable_lin [OF D(1)] by (simp add: lin_inv_def)
  have idle: "pcs ?s p = Idle"
  proof (rule ccontr)
    assume "pcs ?s p \<noteq> Idle"
    with cases_pc [of p] D(3) have "push_waits (queue ?s)" by (auto simp: producer_ok_def)
    with cons [OF assms(3)] assms(2) cap show False by (auto simp: push_waits_def)
  qed
  show todo: "todo a = []"
    using client_step.produce [OF idle] stuck by (cases "todo a") blast+
  with idle D(3) have closed: "is_closed (queue ?s)" and all: "pushes (events ?s) = xs"
    by (auto simp: producer_ok_def producer_calls_def)
  with cons have others: "t \<noteq> p \<Longrightarrow> pcs ?s t = Idle \<and> t \<in> stopped a" for t by blast
  with idle show "\<forall>t. pcs ?s t = Idle" by metis
  from others show "\<forall>t. t \<noteq> p \<longrightarrow> t \<in> stopped a" by blast
  have "items (queue ?s) = []" using cons [OF assms(3)] by blast
  with all spec_run_fifo [of cap "events ?s" "[]" False] reachable_lin [OF D(1)]
  show "pops (events ?s) = xs" by (auto simp: lin_inv_def)
qed

text \<open>The program can always be run to such a state.\<close>

lemma maximal_run:
  fixes a :: "('t::finite, 'a) clients"
  assumes "client_run p n 0 a0 a" and "clients_inv cap p xs a"
  shows "\<exists>n' a'. client_run p n' 0 a0 a' \<and> (\<nexists>a''. client_step p a' a'')"
  using assms
proof (induction "potential p xs a" arbitrary: n a rule: less_induct)
  case less
  show ?case
  proof (cases "\<exists>a'. client_step p a a'")
    case True
    then obtain a' where step: "client_step p a a'" ..
    from less.hyps [OF client_step_potential [OF step less.prems(2)]
        run_work [OF less.prems(1) step] client_step_inv [OF step less.prems(2)]]
    show ?thesis .
  qed (use less.prems in blast)
qed

section \<open>Properties\<close>

text \<open>C6: The producer/consumer program ends: with any capacity, any number of threads and any
  interleaving, it takes at most \<open>(4 n + 8) (2 l + n)\<close> steps, \<open>n\<close> the number of threads and \<open>l\<close>
  that of the elements, and two more for each spurious wake-up.\<close>

theorem producer_consumer_terminates:
  fixes a :: "('t::finite, 'a) clients"
  assumes "client_run p n m (start_clients cap xs) a"
  shows "n \<le> (4 * CARD('t) + 8) * (2 * length xs + CARD('t)) + 2 * m"
  using client_run_potential [OF assms start_inv] by (simp add: start_potential)

theorem producer_consumer_terminates_witness:
  "\<exists>a' :: (bool, nat) clients. client_run True 1 0 (start_clients 1 [7]) a' \<and>
     1 \<le> (4 * CARD(bool) + 8) * (2 * length [7 :: nat] + CARD(bool)) + 2 * 0"
proof -
  let ?a = "start_clients 1 [7] :: (bool, nat) clients"
  have "pcs (system ?a) True = Idle" "todo ?a = Push 7 None # [Close]"
    by (simp_all add: start_clients_def producer_calls_def)
  from run_work [OF run_start client_step.produce [OF this]] obtain a' where
    run: "client_run True (Suc 0) 0 ?a a'" by blast
  from producer_consumer_terminates [OF this] run show ?thesis by auto
qed

text \<open>C5: The producer/consumer program delivers: when it can take no step any more, with a positive
  capacity and at least one consumer, the producer has made all its calls, every consumer has
  left its loop, and what they received is together exactly what was pushed, each consumer's
  part in the order of the pushes; a single consumer has received the list itself.\<close>

theorem producer_consumer_delivers:
  fixes a :: "('t::finite, 'a) clients"
  assumes "client_run p n m (start_clients cap xs) a" and "0 < cap" and "c \<noteq> p"
    and "\<nexists>a'. client_step p a a'"
  shows "todo a = [] \<and> (\<forall>t. pcs (system a) t = Idle) \<and> (\<forall>t. t \<noteq> p \<longrightarrow> t \<in> stopped a) \<and>
    (\<Sum>t \<in> UNIV - {p}. mset (received a t)) = mset xs \<and>
    (\<forall>t. t \<noteq> p \<longrightarrow> subseq (received a t) xs) \<and>
    ((\<forall>t. t \<noteq> p \<longrightarrow> t = c) \<longrightarrow> received a c = xs)"
proof -
  have inv: "clients_inv cap p xs a" by (rule client_run_inv [OF assms(1) start_inv])
  note rest = stuck_clients [OF inv assms(2-4)]
  have got: "received a t = taken t (trace (system a))" if "t \<noteq> p" for t
    using clients_invD(4) [OF inv that] rest(2) by (simp add: consumer_ok_def)
  have sum: "(\<Sum>t \<in> UNIV - {p}. mset (received a t)) = mset xs"
  proof -
    have "(\<Sum>t \<in> UNIV - {p}. mset (received a t)) = (\<Sum>t \<in> UNIV - {p}. mset (taken t (trace (system a))))"
      by (rule sum.cong) (simp_all add: got)
    also have "\<dots> = (\<Sum>t \<in> UNIV. mset (taken t (trace (system a))))"
      using sum.remove [of UNIV p "\<lambda>t. mset (taken t (trace (system a)))"] clients_invD(2) [OF inv]
      by simp
    finally show ?thesis by (simp add: taken_mset rest(4))
  qed
  have sub: "subseq (received a t) xs" if "t \<noteq> p" for t
    using taken_subseq [of t "trace (system a)"] got [OF that] rest(4) by simp
  have "received a c = xs" if only: "\<forall>t. t \<noteq> p \<longrightarrow> t = c"
  proof -
    have "UNIV - {p} = {c}" using only assms(3) by blast
    then have "mset (received a c) = mset xs" using sum by simp
    then have "length (received a c) = length xs" by (rule mset_eq_length)
    with sub [OF assms(3)] show ?thesis by (simp add: subseq_same_length)
  qed
  with rest sum sub show ?thesis by blast
qed

theorem producer_consumer_delivers_witness:
  "\<exists>n a. client_run True n 0 (start_clients 1 [7, 8, 9]) a \<and> received a False = [7, 8, 9 :: nat]"
proof -
  let ?a = "start_clients 1 [7, 8, 9] :: (bool, nat) clients"
  obtain n a where run: "client_run True n 0 ?a a" and stuck: "\<nexists>a'. client_step True a a'"
    using maximal_run [OF run_start start_inv] by blast
  have "(0 :: nat) < 1" "False \<noteq> True" by simp_all
  from producer_consumer_delivers [OF run this stuck] have "received a False = [7, 8, 9]" by simp
  with run show ?thesis by blast
qed

end
