(* ===== verification/Queue_Exceptions.thy ===== *)
theory Queue_Exceptions
  imports Queue_Correct
begin

text \<open>
  Exceptions in the bounded blocking queue
  (\<open>libs/comm/include/comm/utilities/bounded_blocking_queue.hpp\<close>): \<open>q_.push_back(std::move(item))\<close>
  and \<open>out = std::move(q_.front())\<close> run the element's own constructor and assignment and may
  allocate.  An exception leaves the queue as it was (\<open>std::deque\<close> has no partial effect, and an
  assignment that throws is assumed to leave its source alone).  Boost's waits are interruption
  points: an interrupted \<open>wait\<close> acquires the mutex again and throws.  In both cases the lock is
  released by its destructor, no notification is sent, and the caller gets the exception.
\<close>

section \<open>Steps with exceptions\<close>

text \<open>Where an element is moved: \<open>push\<close> into an open queue, \<open>pop\<close> from one that is not empty.  A
  thread interrupted in its wait leaves it as by a spurious wake-up.\<close>

fun moves_element :: "'a call \<Rightarrow> 'a bounded_blocking_queue \<Rightarrow> bool" where
  "moves_element (Push item timeout) b = (\<not> is_closed b)"
| "moves_element (Pop timeout) b = (items b \<noteq> [])"
| "moves_element c b = False"

datatype ('t, 'a) xlabel = Regular "('t, 'a) label" | Throws 't | Interrupted 't

inductive xstep :: "('t, 'a) xlabel \<Rightarrow> ('t, 'a) sys \<Rightarrow> ('t, 'a) sys \<Rightarrow> bool" where
  regular: "qstep l s s' \<Longrightarrow> xstep (Regular l) s s'"
| throws: "pcs s t = Head c d \<Longrightarrow> \<not> must_wait c (queue s) \<Longrightarrow> moves_element c (queue s) \<Longrightarrow>
    xstep (Throws t) s (move t (Exit c Threw []) s)"
| interrupted: "pcs s t = Relock c d w \<Longrightarrow> owner s = None \<Longrightarrow>
    xstep (Interrupted t) s ((move t (Exit c Threw []) s)\<lparr>owner := Some t\<rparr>)"

inductive xreachable :: "nat \<Rightarrow> ('t, 'a) sys \<Rightarrow> bool" for cap where
  xstart: "xreachable cap (init_sys cap)"
| xnext: "xreachable cap s \<Longrightarrow> xstep l s s' \<Longrightarrow> xreachable cap s'"

lemma xreachable_mutex: "xreachable cap s \<Longrightarrow> mutex_inv s"
proof (induction rule: xreachable.induct)
  case xstart
  show ?case by (rule reachable_mutex [OF reachable.start])
next
  case (xnext s l s')
  from xnext.hyps(2) xnext.IH show ?case
    by cases (auto intro: qstep_mutex mutex_inv_move mutex_inv_acquire)
qed

lemma xreachable_lin: "xreachable cap s \<Longrightarrow> lin_inv cap s"
proof (induction rule: xreachable.induct)
  case xstart
  show ?case by (rule reachable_lin [OF reachable.start])
next
  case (xnext s l s')
  from xnext.hyps(2) show ?case
  proof cases
    case (regular l)
    from lin_inv_step [OF regular(2) xnext.IH] show ?thesis .
  next
    case (throws t c d)
    with xnext.IH show ?thesis by (simp add: lin_inv_def)
  next
    case (interrupted t c d w)
    with xnext.IH show ?thesis by (simp add: lin_inv_def)
  qed
qed

lemma exec_all_xreachable:
  "xreachable cap s \<Longrightarrow> exec_all ls s = Some s' \<Longrightarrow> xreachable cap s'"
proof (induction ls arbitrary: s)
  case (Cons l ls)
  then obtain s1 where "exec l s = Some s1" and rest: "exec_all ls s1 = Some s'"
    by (auto simp: bind_eq_Some_conv)
  then have "xstep (Regular l) s s1" by (blast intro: exec_sound xstep.regular)
  from Cons.IH [OF xreachable.xnext [OF Cons.prems(1) this] rest] show ?case .
qed simp

section \<open>A run, label by label\<close>

inductive qrun :: "('t, 'a) label list \<Rightarrow> ('t, 'a) sys \<Rightarrow> ('t, 'a) sys \<Rightarrow> bool" where
  qrun_nil: "qrun [] s s"
| qrun_cons: "qstep l s s1 \<Longrightarrow> qrun ls s1 s2 \<Longrightarrow> qrun (l # ls) s s2"

lemma exec_all_qrun: "exec_all ls s = Some s' \<Longrightarrow> qrun ls s s'"
proof (induction ls arbitrary: s)
  case (Cons l ls)
  then obtain s1 where "exec l s = Some s1" and rest: "exec_all ls s1 = Some s'"
    by (auto simp: bind_eq_Some_conv)
  from qrun_cons [OF exec_sound [OF this(1)] Cons.IH [OF rest]] show ?case .
qed (simp add: qrun_nil)

lemma qrun_append: "qrun ls s s1 \<Longrightarrow> qrun ks s1 s2 \<Longrightarrow> qrun (ls @ ks) s s2"
  by (induction rule: qrun.induct) (auto intro: qrun_cons)

section \<open>Three threads\<close>

text \<open>Two consumers and a producer: both consumers block, the producer pushes 7 and its
  notification wakes the first consumer, which goes on up to the head of its loop.\<close>

abbreviation first :: "bool option" where "first \<equiv> Some True"
abbreviation second :: "bool option" where "second \<equiv> Some False"
abbreviation producer :: "bool option" where "producer \<equiv> None"

definition wake_first :: "(bool option, nat) label list" where
  "wake_first =
     [Call first (Pop None), Run first None, Run first None,
      Call second (Pop None), Run second None, Run second None,
      Call producer (Push 7 None), Run producer None, Run producer None, Run producer None,
      Run producer (Some first), Run producer None, Run first None]"

lemma run_wake_first:
  "\<exists>s. exec_all wake_first (init_sys 1) = Some s \<and> pcs s first = Head (Pop None) None \<and>
     pcs s second = Waiting (Pop None) None \<and> pcs s producer = Idle \<and>
     items (queue s) = [7] \<and> \<not> is_closed (queue s) \<and> owner s = Some first \<and>
     history first (trace s) = [Invoke (Pop None)]"
  by (simp add: wake_first_def run_defs history_def)

section \<open>Properties\<close>

text \<open>C9: Exceptions leave the queue consistent: in every state that any interleaving of calls can reach,
  some of them ended by an element that throws or by an interrupted wait, at most one thread holds the mutex,
  the completed calls are a legal history of the sequential queue that ends in the present
  contents, nothing is lost, duplicated or reordered, and the capacity is respected.\<close>

theorem queue_safe_under_exceptions:
  assumes "xreachable cap s"
  shows "(\<forall>t u. holds (pcs s t) \<longrightarrow> holds (pcs s u) \<longrightarrow> t = u) \<and>
    spec_run cap (lins (trace s)) ([], False) = Some (items (queue s), is_closed (queue s)) \<and>
    pops (lins (trace s)) @ items (queue s) = pushes (lins (trace s)) \<and>
    length (items (queue s)) \<le> cap"
proof -
  have run: "spec_run cap (lins (trace s)) ([], False) = Some (items (queue s), is_closed (queue s))"
    using xreachable_lin [OF assms] by (simp add: lin_inv_def)
  from spec_run_fifo [OF run] spec_run_bounded [OF run] run xreachable_mutex [OF assms]
  show ?thesis by (simp add: mutex_inv_def)
qed

theorem queue_safe_under_exceptions_witness:
  "\<exists>s. exec_all wake_first (init_sys 1) = Some s \<and>
     pops (lins (trace (move first (Exit (Pop None) Threw []) s))) @ [7] =
       pushes (lins (trace (move first (Exit (Pop None) Threw []) s)))"
proof -
  obtain s where run: "exec_all wake_first (init_sys 1) = Some s"
    and pc: "pcs s first = Head (Pop None) None" and b: "items (queue s) = [7]"
    using run_wake_first by blast
  have "xreachable 1 s" by (rule exec_all_xreachable [OF xreachable.xstart run])
  moreover have "xstep (Throws first) s (move first (Exit (Pop None) Threw []) s)"
    by (rule xstep.throws [OF pc]) (simp_all add: b pop_waits_def)
  ultimately have "xreachable 1 (move first (Exit (Pop None) Threw []) s)" by (rule xreachable.xnext)
  from queue_safe_under_exceptions [OF this] run b show ?thesis by auto
qed

text \<open>C25: An element whose assignment throws can swallow the only wake-up.  Two consumers are blocked;
  a producer pushes 7 and its one notification wakes the first consumer, all without an exception.
  Then the assignment \<open>out = std::move(q_.front())\<close> of the first consumer throws.  It returns with
  the exception, without a notification, and from then on no thread can take a step, although
  the second consumer is blocked in \<open>pop\<close> and the queue is open and holds 7.\<close>

theorem throwing_element_loses_wakeup:
  "\<exists>ls (s :: (bool option, nat) sys) s1 s2.
     qrun (ls @ [Run producer (Some first), Run producer None, Run first None]) (init_sys 1) s \<and>
     pcs s second = Waiting (Pop None) None \<and>
     xstep (Throws first) s s1 \<and> (internal ^^ 2) s1 s2 \<and>
     history first (trace s2) = [Invoke (Pop None), Return Threw] \<and>
     (\<nexists>s'. internal s2 s') \<and>
     pcs s2 second = Waiting (Pop None) None \<and> \<not> must_wait (Pop None) (queue s2) \<and>
     items (queue s2) = [7] \<and> \<not> is_closed (queue s2)"
proof -
  obtain s where run: "exec_all wake_first (init_sys 1) = Some s"
    and pc: "pcs s first = Head (Pop None) None" "pcs s second = Waiting (Pop None) None"
      "pcs s producer = Idle"
    and b: "items (queue s) = [7]" "\<not> is_closed (queue s)"
    and hist: "history first (trace s) = [Invoke (Pop None)]"
    using run_wake_first by blast
  let ?s1 = "move first (Exit (Pop None) Threw []) s"
  let ?s2 = "log first (Return Threw) (move first Idle ((move first (Notify (Pop None) Threw []) ?s1)\<lparr>owner := None\<rparr>))"
  have "wake_first = take 10 wake_first @ [Run producer (Some first), Run producer None, Run first None]"
    by (simp add: wake_first_def)
  then have "qrun (take 10 wake_first @ [Run producer (Some first), Run producer None, Run first None])
      (init_sys 1) s"
    using exec_all_qrun [OF run] by metis
  moreover have "xstep (Throws first) s ?s1"
    by (rule xstep.throws [OF pc(1)]) (simp_all add: b pop_waits_def)
  moreover have "exec_all (map (\<lambda>(t, w). Run t w) [(first, None), (first, None)]) ?s1 = Some ?s2"
    by simp
  from exec_internal [OF this] have "(internal ^^ 2) ?s1 ?s2" by (simp add: numeral_2_eq_2)
  moreover have pcs2: "pcs ?s2 = (pcs s)(first := Idle)" by simp
  moreover have "\<nexists>s'. internal ?s2 s'"
  proof
    assume "\<exists>s'. internal ?s2 s'"
    then obtain t w s' where step: "qstep (Run t w) ?s2 s'" by (auto simp: internal_def)
    then have "busy (pcs ?s2 t)" by (auto elim!: qstep_run)
    then show False using pc(2,3) unfolding pcs2 by (cases t) (auto split: if_splits)
  qed
  moreover have "history first (trace ?s2) = [Invoke (Pop None), Return Threw]" using hist by simp
  moreover have "pcs ?s2 second = Waiting (Pop None) None" "\<not> must_wait (Pop None) (queue ?s2)"
    "items (queue ?s2) = [7]" "\<not> is_closed (queue ?s2)"
    using pc(2) b by (simp_all add: pop_waits_def)
  ultimately show ?thesis using pc(2) by blast
qed

end
