(* ===== verification/Queue_Fairness.thy ===== *)
theory Queue_Fairness
  imports Queue_Clients Queue_Exceptions
begin

text \<open>
  What the bounded blocking queue does not promise: an order among its callers.  A thread that
  is woken has to acquire the mutex again and may find that another call came first.  The run
  of the three threads of \<open>Queue_Exceptions\<close> below can be repeated for ever.
\<close>

section \<open>One round\<close>

text \<open>The first consumer is blocked; the producer pushes 7 and releases the mutex; the second
  consumer takes 7; only then the producer notifies the first consumer, which finds the queue
  empty and blocks again.\<close>

definition overtake :: "(bool option, nat) label list" where
  "overtake =
     [Call producer (Push 7 None), Run producer None, Run producer None, Run producer None,
      Call second (Pop None), Run second None, Run second None, Run second None,
      Run producer (Some first), Run producer None, Run second None, Run second None,
      Run first None, Run first None]"

definition blocked_first :: "(bool option, nat) sys \<Rightarrow> bool" where
  "blocked_first s \<longleftrightarrow>
     queue s = new_queue 1 \<and> owner s = None \<and> pcs s first = Waiting (Pop None) None \<and>
     pcs s second = Idle \<and> pcs s producer = Idle"

lemma blocked_first_pcs:
  "blocked_first s \<Longrightarrow> pcs s = (\<lambda>t. if t = first then Waiting (Pop None) None else Idle)"
  by (rule ext, case_tac t) (auto simp: blocked_first_def)

lemma one_round:
  assumes "blocked_first s"
  shows "\<exists>s'. exec_all overtake s = Some s' \<and> blocked_first s' \<and>
    history first (trace s') = history first (trace s) \<and>
    taken second (trace s') = taken second (trace s) @ [7] \<and>
    pops (lins (trace s')) = pops (lins (trace s)) @ [7]"
  using assms blocked_first_pcs [OF assms]
  by (simp add: overtake_def run_defs blocked_first_def taken_def history_def)

lemma first_blocks:
  "\<exists>s. exec_all [Call first (Pop None), Run first None, Run first None] (init_sys 1) = Some s \<and>
     blocked_first s \<and> history first (trace s) = [Invoke (Pop None)] \<and> taken second (trace s) = [] \<and>
     pops (lins (trace s)) = []"
  by (simp add: run_defs blocked_first_def taken_def history_def)

lemma overtake_labels:
  "filter (\<lambda>l. \<exists>t u. l = Run t (Some u)) overtake = [Run producer (Some first)]"
  "list_all (\<lambda>l. \<exists>t. (\<exists>c. l = Call t c) \<or> (\<exists>w. l = Run t w)) overtake"
  by (simp_all add: overtake_def)

section \<open>Properties\<close>

text \<open>C39: A waiting consumer can be overtaken for ever although it is notified: for every \<open>n\<close> there is
  a run, without timeouts and spurious wake-ups, in which one consumer entered \<open>pop\<close> before
  anything was pushed and the producer's \<open>notify_one\<close> has woken it \<open>n\<close> times and nobody else
  ever; each time it blocked again in the same call of \<open>pop\<close>, while another consumer that came
  later each time has taken all \<open>n\<close> elements.\<close>

theorem waiting_consumer_can_be_overtaken:
  "\<exists>ls (s :: (bool option, nat) sys). qrun ls (init_sys 1) s \<and>
     list_all (\<lambda>l. \<exists>t. (\<exists>c. l = Call t c) \<or> (\<exists>w. l = Run t w)) ls \<and>
     filter (\<lambda>l. \<exists>t u. l = Run t (Some u)) ls = replicate n (Run producer (Some first)) \<and>
     pcs s first = Waiting (Pop None) None \<and> history first (trace s) = [Invoke (Pop None)] \<and>
     pops (lins (trace s)) = replicate n 7 \<and> taken second (trace s) = replicate n 7"
proof -
  have "\<exists>ls s. qrun ls (init_sys 1) s \<and> list_all (\<lambda>l. \<exists>t. (\<exists>c. l = Call t c) \<or> (\<exists>w. l = Run t w)) ls \<and>
     filter (\<lambda>l. \<exists>t u. l = Run t (Some u)) ls = replicate n (Run producer (Some first)) \<and>
     blocked_first s \<and> history first (trace s) = [Invoke (Pop None)] \<and>
     pops (lins (trace s)) = replicate n 7 \<and> taken second (trace s) = replicate n 7"
  proof (induction n)
    case 0
    from first_blocks obtain s where
      run: "exec_all [Call first (Pop None), Run first None, Run first None] (init_sys 1) = Some s"
      and "blocked_first s" "history first (trace s) = [Invoke (Pop None)]" "taken second (trace s) = []"
      "pops (lins (trace s)) = []"
      by blast
    with exec_all_qrun [OF run] show ?case
      by (intro exI [of _ "[Call first (Pop None), Run first None, Run first None]"] exI [of _ s]) simp
  next
    case (Suc n)
    then obtain ls s where s: "qrun ls (init_sys 1) s"
      "list_all (\<lambda>l. \<exists>t. (\<exists>c. l = Call t c) \<or> (\<exists>w. l = Run t w)) ls"
      "filter (\<lambda>l. \<exists>t u. l = Run t (Some u)) ls = replicate n (Run producer (Some first))"
      "blocked_first s" "history first (trace s) = [Invoke (Pop None)]"
      "pops (lins (trace s)) = replicate n 7" "taken second (trace s) = replicate n 7"
      by blast
    from one_round [OF s(4)] obtain s' where s': "exec_all overtake s = Some s'" "blocked_first s'"
      "history first (trace s') = history first (trace s)"
      "taken second (trace s') = taken second (trace s) @ [7]"
      "pops (lins (trace s')) = pops (lins (trace s)) @ [7]" by blast
    have "filter (\<lambda>l. \<exists>t u. l = Run t (Some u)) (ls @ overtake) =
        replicate (Suc n) (Run producer (Some first))"
      using s(3) overtake_labels(1) by (simp add: replicate_append_same)
    with qrun_append [OF s(1) exec_all_qrun [OF s'(1)]] s s' overtake_labels(2) show ?case
      by (intro exI [of _ "ls @ overtake"] exI [of _ s']) (simp add: replicate_append_same)
  qed
  then show ?thesis by (auto simp: blocked_first_def)
qed

end
