(* ===== verification/Queue_Counts.thy ===== *)
theory Queue_Counts
  imports Queue_Correct "HOL-Library.Multiset"
begin

text \<open>
  What the callers of the bounded blocking queue
  (\<open>libs/comm/include/comm/utilities/bounded_blocking_queue.hpp\<close>) can see of it, by counting calls
  and return values: what \<open>pop\<close> hands out against what was given to \<open>push\<close>, and how far the
  producers can run ahead.  The boundary case of a queue without capacity is included.
\<close>

section \<open>What is counted\<close>

text \<open>Of one event: the value given to a \<open>push\<close>, the value a \<open>pop\<close> returned, a \<open>push\<close> that returned
  \<open>true\<close>, a \<open>pop\<close> that was called; and the values that entered and left the queue.\<close>

fun offered :: "'a event \<Rightarrow> 'a multiset" where
  "offered (Invoke (Push x timeout)) = {#x#}"
| "offered _ = {#}"

fun obtained :: "'a event \<Rightarrow> 'a multiset" where
  "obtained (Return (Popped (Some x))) = {#x#}"
| "obtained _ = {#}"

fun accepted :: "'a event \<Rightarrow> nat" where
  "accepted (Return (Pushed True)) = 1"
| "accepted _ = 0"

fun asked :: "'a event \<Rightarrow> nat" where
  "asked (Invoke (Pop timeout)) = 1"
| "asked _ = 0"

fun enqueued :: "'a event \<Rightarrow> 'a multiset" where
  "enqueued (Lin (L_push x)) = {#x#}"
| "enqueued _ = {#}"

fun dequeued :: "'a event \<Rightarrow> 'a multiset" where
  "dequeued (Lin (L_pop x)) = {#x#}"
| "dequeued _ = {#}"

definition tally :: "('a event \<Rightarrow> 'b :: comm_monoid_add) \<Rightarrow> 'a event list \<Rightarrow> 'b" where
  "tally f es = sum_list (map f es)"

lemma tally_simps [simp]:
  "tally f [] = 0" "tally f (e # es) = f e + tally f es" "tally f (es @ fs) = tally f es + tally f fs"
  by (simp_all add: tally_def)

abbreviation event_list :: "('t, 'a) sys \<Rightarrow> 'a event list" where
  "event_list s \<equiv> map snd (trace s)"

section \<open>One thread\<close>

lemma complete_tallies:
  "complete es \<Longrightarrow> tally obtained es = tally dequeued es \<and> tally enqueued es \<subseteq># tally offered es \<and>
    tally accepted es = size (tally enqueued es) \<and> size (tally dequeued es) \<le> tally asked es"
proof (induction es rule: complete.induct)
  case (2 c e r es)
  then show ?case
    by (cases c) (auto split: lin.splits intro: subset_mset.add_mono subset_mset.order_trans)
qed simp_all

lemma completes_parts:
  assumes "completes c e r"
  shows "enqueued (Lin e) \<subseteq># offered (Invoke c)" "size (dequeued (Lin e)) \<le> asked (Invoke c)"
  using assms by (cases c; auto split: lin.splits)+

lemma in_call_tallies:
  assumes "in_call p es"
  shows "tally obtained es = {#}" "tally accepted es = 0" "tally enqueued es \<subseteq># tally offered es"
    "size (tally dequeued es) \<le> tally asked es"
  using assms by (cases p; auto split: if_splits dest: completes_parts)+

lemma history_tallies:
  assumes "hist_ok tr t p"
  shows "tally obtained (history t tr) \<subseteq># tally dequeued (history t tr)"
    "tally enqueued (history t tr) \<subseteq># tally offered (history t tr)"
    "tally accepted (history t tr) \<le> size (tally enqueued (history t tr))"
    "size (tally dequeued (history t tr)) \<le> tally asked (history t tr)"
    "p = Idle \<Longrightarrow> tally obtained (history t tr) = tally dequeued (history t tr)"
    "p = Idle \<Longrightarrow> tally accepted (history t tr) = size (tally enqueued (history t tr))"
proof -
  obtain es now where h: "history t tr = es @ now" and es: "complete es" and now: "in_call p now"
    using assms by (auto simp: hist_ok_def)
  note C = complete_tallies [OF es] and N = in_call_tallies [OF now]
  show "tally obtained (history t tr) \<subseteq># tally dequeued (history t tr)"
    "tally accepted (history t tr) \<le> size (tally enqueued (history t tr))"
    using C N(1,2) by (simp_all add: h)
  show "tally enqueued (history t tr) \<subseteq># tally offered (history t tr)"
    using C N(3) by (simp add: h subset_mset.add_mono)
  show "size (tally dequeued (history t tr)) \<le> tally asked (history t tr)"
    using C N(4) by (simp add: h)
  assume "p = Idle"
  then have "now = []" using now by simp
  then show "tally obtained (history t tr) = tally dequeued (history t tr)"
    "tally accepted (history t tr) = size (tally enqueued (history t tr))"
    using C by (simp_all add: h)
qed

section \<open>All threads\<close>

lemma sum_histories:
  fixes tr :: "('t::finite \<times> 'a event) list" and f :: "'a event \<Rightarrow> 'b :: comm_monoid_add"
  shows "(\<Sum>t \<in> UNIV. tally f (history t tr)) = tally f (map snd tr)"
proof (induction tr rule: rev_induct)
  case (snoc x tr)
  obtain u e where x: "x = (u, e)" by fastforce
  have "(\<Sum>t \<in> UNIV. tally f (history t (tr @ [x]))) =
      (\<Sum>t \<in> UNIV. tally f (history t tr) + (if u = t then f e else 0))"
    by (rule sum.cong) (auto simp: x)
  then show ?case using snoc by (simp add: sum.distrib x)
qed (simp add: history_def)

lemma sum_subseteq_mset:
  "(\<And>t. t \<in> A \<Longrightarrow> f t \<subseteq># g t) \<Longrightarrow> (\<Sum>t \<in> A. f t) \<subseteq># (\<Sum>t \<in> A. g t)"
  by (induction A rule: infinite_finite_induct) (auto intro: subset_mset.add_mono)

lemma size_sum_mset:
  fixes f :: "'t \<Rightarrow> 'a multiset"
  shows "size (\<Sum>t \<in> A. f t) = (\<Sum>t \<in> A. size (f t))"
  by (induction A rule: infinite_finite_induct) simp_all

lemma tally_lins:
  "tally enqueued (map snd tr) = mset (pushes (lins tr))"
  "tally dequeued (map snd tr) = mset (pops (lins tr))"
proof (induction tr)
  case (Cons x tr)
  { case 1 with Cons show ?case by (cases x; cases "snd x"; cases "case snd x of Lin e \<Rightarrow> e") auto }
  { case 2 with Cons show ?case by (cases x; cases "snd x"; cases "case snd x of Lin e \<Rightarrow> e") auto }
qed simp_all

lemma reachable_tallies:
  fixes s :: "('t::finite, 'a) sys"
  assumes "reachable cap s"
  shows "tally obtained (event_list s) \<subseteq># mset (pops (events s))"
    "mset (pushes (events s)) \<subseteq># tally offered (event_list s)"
    "tally accepted (event_list s) \<le> length (pushes (events s))"
    "length (pops (events s)) \<le> tally asked (event_list s)"
    "\<forall>t. pcs s t = Idle \<Longrightarrow> tally obtained (event_list s) = mset (pops (events s))"
    "\<forall>t. pcs s t = Idle \<Longrightarrow> tally accepted (event_list s) = length (pushes (events s))"
proof -
  note H = history_tallies [OF reachable_hist [OF assms, unfolded hist_inv_def, rule_format]]
  show "tally obtained (event_list s) \<subseteq># mset (pops (events s))"
    unfolding tally_lins [symmetric] sum_histories [symmetric]
    by (rule sum_subseteq_mset) (rule H(1))
  show "mset (pushes (events s)) \<subseteq># tally offered (event_list s)"
    unfolding tally_lins [symmetric] sum_histories [symmetric]
    by (rule sum_subseteq_mset) (rule H(2))
  show "tally accepted (event_list s) \<le> length (pushes (events s))"
    unfolding size_mset [symmetric] tally_lins [symmetric] sum_histories [symmetric] size_sum_mset
    by (rule sum_mono) (rule H(3))
  show "length (pops (events s)) \<le> tally asked (event_list s)"
    unfolding size_mset [symmetric] tally_lins [symmetric] sum_histories [symmetric] size_sum_mset
    by (rule sum_mono) (rule H(4))
  assume idle: "\<forall>t. pcs s t = Idle"
  then show "tally obtained (event_list s) = mset (pops (events s))"
    unfolding tally_lins [symmetric] sum_histories [symmetric]
    by (intro sum.cong refl H(5)) simp
  from idle show "tally accepted (event_list s) = length (pushes (events s))"
    unfolding size_mset [symmetric] tally_lins [symmetric] sum_histories [symmetric] size_sum_mset
    by (intro sum.cong refl H(6)) simp
qed

text \<open>Without capacity the specification allows no push.\<close>

lemma spec_run_no_capacity: "spec_run 0 es (xs, c) = Some s \<Longrightarrow> pushes es = []"
proof (induction es arbitrary: xs c)
  case (Cons e es)
  then obtain ys d where "spec_step 0 e (xs, c) = Some (ys, d)" and "spec_run 0 es (ys, d) = Some s"
    by (auto simp: bind_eq_Some_conv)
  with Cons.IH show ?case by (cases e) simp_all
qed simp

section \<open>Conservation\<close>

lemma reachable_fifo:
  assumes "reachable cap s"
  shows "pops (events s) @ items (queue s) = pushes (events s)"
    "length (pushes (events s)) = length (pops (events s)) + length (items (queue s))"
    "length (items (queue s)) \<le> cap" "cap = 0 \<Longrightarrow> pushes (events s) = []"
proof -
  have run: "spec_run cap (events s) ([], False) = Some (abs_queue (queue s))"
    using reachable_lin [OF assms] by (simp add: lin_inv_def)
  show fifo: "pops (events s) @ items (queue s) = pushes (events s)"
    using spec_run_fifo [OF run] by simp
  then show "length (pushes (events s)) = length (pops (events s)) + length (items (queue s))"
    by (metis length_append)
  show "length (items (queue s)) \<le> cap" using spec_run_bounded [OF run] by simp
  show "cap = 0 \<Longrightarrow> pushes (events s) = []" using run spec_run_no_capacity by blast
qed

lemma obtained_was_offered:
  fixes s :: "('t::finite, 'a) sys"
  assumes "reachable cap s"
  shows "tally obtained (event_list s) \<subseteq># tally offered (event_list s)"
proof -
  have "mset (pops (events s)) \<subseteq># mset (pushes (events s))"
    by (simp flip: reachable_fifo(1) [OF assms])
  then show ?thesis using reachable_tallies(1,2) [OF assms] by (meson subset_mset.order_trans)
qed

lemma accepted_bound:
  fixes s :: "('t::finite, 'a) sys"
  assumes "reachable cap s"
  shows "tally accepted (event_list s) \<le> cap + tally asked (event_list s)"
  using reachable_tallies(3,4) [OF assms] reachable_fifo(2,3) [OF assms] by linarith

lemma obtainedI: "Return (Popped (Some x)) \<in> set es \<Longrightarrow> x \<in># tally obtained es"
  by (induction es) auto

section \<open>The property\<close>

text \<open>C7: What the callers see: every value a \<open>pop\<close> has returned was given to a \<open>push\<close>, and none was
  returned more often than it was given; no more pushes have returned \<open>true\<close> than the capacity
  plus the pops that were called; when no call is in progress, the successful pushes are exactly
  what was returned plus what \<open>size()\<close> counts; and a queue constructed without capacity accepts and
  returns nothing.\<close>

theorem queue_conserves_elements:
  fixes s :: "('t::finite, 'a) sys"
  assumes "reachable cap s"
  shows "tally obtained (map snd (trace s)) \<subseteq># tally offered (map snd (trace s)) \<and>
    tally accepted (map snd (trace s)) \<le> cap + tally asked (map snd (trace s)) \<and>
    ((\<forall>t. pcs s t = Idle) \<longrightarrow>
      tally accepted (map snd (trace s)) = size (tally obtained (map snd (trace s))) + size_body (queue s)) \<and>
    (cap = 0 \<longrightarrow> tally accepted (map snd (trace s)) = 0 \<and> tally obtained (map snd (trace s)) = {#})"
  using obtained_was_offered [OF assms] accepted_bound [OF assms] reachable_tallies [OF assms]
    reachable_fifo [OF assms]
  by (auto simp: size_body_def)

text \<open>Thread \<open>True\<close> pushes 7 to thread \<open>False\<close>, which waits for it.\<close>

theorem queue_conserves_elements_witness:
  "\<exists>s. exec_all (block_pop @ push7 @ map (\<lambda>(t, w). Run t w) finish_push) (two_threads 1) = Some s \<and>
     size_body (queue s) = 0 \<and> tally obtained (map snd (trace s)) = {#7#} \<and>
     tally accepted (map snd (trace s)) = 1"
proof -
  obtain s where run: "exec_all (block_pop @ push7 @ map (\<lambda>(t, w). Run t w) finish_push)
      (two_threads 1) = Some s" and idle: "pcs s False = Idle" "pcs s True = Idle"
    and s: "size_body (queue s) = 0" "tally obtained (map snd (trace s)) = {#7#}"
    by (simp add: run_defs finish_push_def size_body_def)
  from idle have "\<forall>t. pcs s t = Idle" by (metis (full_types))
  with queue_conserves_elements [OF exec_init_reachable [OF run]] s run show ?thesis by auto
qed

end
