(* ===== verification/Exceptions.thy ===== *)
theory Exceptions
  imports Prelude
begin

text \<open>
  Exceptions and other ways an operation ends: \<open>core::exceptions\<close> (\<open>my_error\<close>, \<open>show_help\<close>
  and their error-info, \<open>libs/core/include/core/exceptions\<close>, \<open>libs/core/src/exceptions\<close>),
  exceptions thrown by the standard library and Boost, and undefined behaviour.  Exceptions
  are values; a handler \<open>catch (const std::exception &)\<close> or
  \<open>catch (const boost::exception &)\<close> is a test of the exception's base classes.
\<close>

section \<open>Exception values\<close>

datatype std_class =
    Logic_error | Runtime_error | System_error | Bad_function_call | Bad_weak_ptr | Other_std

text \<open>
  An exception from a library: one derived from \<open>std::exception\<close>, with its class, whether it
  also derives from \<open>boost::exception\<close> (everything thrown through \<open>boost::throw_exception\<close>
  does) and its \<open>what()\<close> text; or one that is not a \<open>std::exception\<close>, possibly still a
  \<open>boost::exception\<close>.
\<close>

datatype lib_exn =
    Std_exn std_class bool string
  | Foreign_exn bool

record errinfo =
  errinfo_path :: "string option"
  errinfo_errno :: "int option"
  errinfo_message :: "string option"

definition no_errinfo :: errinfo where
  "no_errinfo = \<lparr>errinfo_path = None, errinfo_errno = None, errinfo_message = None\<rparr>"

text \<open>\<open>my_error\<close> carries its error-info and possibly a nested exception
  (\<open>boost::errinfo_nested_exception\<close>).\<close>

datatype exn =
    Lib lib_exn
  | My_error errinfo "exn option"
  | Show_help errinfo

fun isa_std_exception :: "exn \<Rightarrow> bool" where
  "isa_std_exception (Lib (Std_exn _ _ _)) = True"
| "isa_std_exception (Lib (Foreign_exn _)) = False"
| "isa_std_exception (My_error _ _) = True"
| "isa_std_exception (Show_help _) = True"

fun isa_boost_exception :: "exn \<Rightarrow> bool" where
  "isa_boost_exception (Lib (Std_exn _ b _)) = b"
| "isa_boost_exception (Lib (Foreign_exn b)) = b"
| "isa_boost_exception (My_error _ _) = True"
| "isa_boost_exception (Show_help _) = True"

text \<open>\<open>boost::throw_exception(E(msg))\<close>: the thrown object derives from \<open>E\<close> and from
  \<open>boost::exception\<close>.\<close>

definition throw_std :: "std_class \<Rightarrow> string \<Rightarrow> exn" where
  "throw_std c msg = Lib (Std_exn c True msg)"

text \<open>Undefined behaviour the models can reach, and the two ways an operation fails.\<close>

datatype ub = Buffer_overflow | Null_dereference | Empty_range_dereference

datatype failure = Raised exn | Fault ub

section \<open>The \<open>what()\<close> functions\<close>

text \<open>A \<open>const char*\<close> result is read up to its first NUL.\<close>

definition c_str :: "string \<Rightarrow> string" where
  "c_str s = takeWhile (\<lambda>c. c \<noteq> CHR 0x00) s"

definition show_help_what :: "errinfo \<Rightarrow> string" where
  "show_help_what i =
     (case errinfo_message i of Some msg \<Rightarrow> c_str msg | None \<Rightarrow> ''show_help'')"

text \<open>
  \<open>my_error::what()\<close> calls \<open>boost::diagnostic_information(*this)\<close>, which is library code and a
  parameter \<open>D\<close>: given the virtual function \<open>what()\<close> it may call on its argument, it
  returns a text, throws, or does not return (\<open>None\<close>).  A call of \<open>what()\<close> is given a stack
  depth; \<open>None\<close> means that no result was produced within that depth.  An allocation failure
  inside the handlers is not modelled.
\<close>

type_synonym what_fn = "exn \<Rightarrow> string option"
type_synonym diag_fn = "what_fn \<Rightarrow> exn \<Rightarrow> (exn + string) option"

definition what_failed_prefix :: string where
  "what_failed_prefix = ''failed to build diagnostic_information in my_error::what(): ''"

fun what :: "diag_fn \<Rightarrow> nat \<Rightarrow> what_fn" where
  "what D 0 e = None"
| "what D (Suc n) (Lib (Std_exn _ _ w)) = Some w"
| "what D (Suc n) (Lib (Foreign_exn _)) = None"
| "what D (Suc n) (Show_help i) = Some (show_help_what i)"
| "what D (Suc n) (My_error i nested) =
     (case D (what D n) (My_error i nested) of
        None \<Rightarrow> None
      | Some (Inr s) \<Rightarrow> Some (c_str (if s \<noteq> [] then s else ''my_error''))
      | Some (Inl error) \<Rightarrow>
          (if isa_std_exception error
           then map_option (\<lambda>w. c_str (what_failed_prefix @ w)) (what D n error)
           else Some (c_str (what_failed_prefix @ ''unknown exception''))))"

text \<open>
  What the code relies on: Boost documents that the text \<open>diagnostic_information\<close> builds for a
  \<open>std::exception\<close> includes its \<open>what()\<close>, so it returns only if \<open>what()\<close> does.
\<close>

definition includes_what :: "diag_fn \<Rightarrow> bool" where
  "includes_what D \<longleftrightarrow> (\<forall>w e. isa_std_exception e \<longrightarrow> w e = None \<longrightarrow> D w e = None)"

text \<open>The other kind of library function, which builds the text from the error-info alone.\<close>

definition ignores_what :: "diag_fn \<Rightarrow> bool" where
  "ignores_what D \<longleftrightarrow> (\<forall>w w' e. D w e = D w' e)"

lemma c_str_no_NUL: "CHR 0x00 \<notin> set (c_str s)"
  by (auto simp: c_str_def dest: set_takeWhileD)

lemma c_str_id: "CHR 0x00 \<notin> set s \<Longrightarrow> c_str s = s"
  unfolding c_str_def takeWhile_eq_all_conv by metis

lemma what_fails_if_includes_what:
  assumes "includes_what D"
  shows "what D n (My_error i nested) = None"
proof (induction n)
  case 0
  show ?case by simp
next
  case (Suc n)
  with assms have "D (what D n) (My_error i nested) = None"
    by (auto simp: includes_what_def)
  then show ?case by simp
qed

lemma throw_std_isa [simp]:
  "isa_std_exception (throw_std c m)" "isa_boost_exception (throw_std c m)"
  by (simp_all add: throw_std_def)

section \<open>Properties\<close>

text \<open>C33: With a library whose diagnostic text includes \<open>what()\<close>, as documented, \<open>my_error::what()\<close>
  calls itself for ever: it produces no result at any stack depth, whatever the error carries;
  its own fallbacks for an empty text and for an exception are never reached.\<close>

theorem my_error_what_never_returns:
  assumes "includes_what D"
  shows "what D depth (My_error i nested) = None"
  using assms by (rule what_fails_if_includes_what)

theorem my_error_what_never_returns_witness:
  "what (\<lambda>w e. map_option Inr (w e)) 1000 (My_error no_errinfo None) = None \<and>
   what (\<lambda>w e. map_option Inr (w e)) 1 (Show_help no_errinfo) = Some ''show_help''"
  using my_error_what_never_returns [of "\<lambda>w e. map_option Inr (w e)" 1000]
  by (simp add: includes_what_def show_help_what_def no_errinfo_def)

end
