(* ===== verification/Message_Header.thy ===== *)
theory Message_Header
  imports Exceptions
begin

text \<open>
  The fixed 32-byte message header, \<open>comm::messages::message_header\<close>
  (\<open>libs/comm/include/comm/messages/message_header.hpp\<close>,
  \<open>libs/comm/src/messages/message_header.cpp\<close>): payload length (4 bytes, big-endian), version
  (2 bytes, big-endian), type (26 bytes, NUL-terminated).  An operation of the class takes the
  object and returns a result and the object after it, also when it throws, because
  \<open>decode_header\<close> has already overwritten two members when it does.
\<close>

section \<open>Byte order\<close>

text \<open>
  \<open>boost::endian\<close> is a library: its four conversions are members of the parameter \<open>P\<close>, with
  the byte order of the host, which decides how \<open>memcpy\<close> sees an integer object.
\<close>

record platform =
  big_endian_host :: bool
  native_to_big32 :: "32 word \<Rightarrow> 32 word"
  big_to_native32 :: "32 word \<Rightarrow> 32 word"
  native_to_big16 :: "16 word \<Rightarrow> 16 word"
  big_to_native16 :: "16 word \<Rightarrow> 16 word"

definition object_rep32 :: "platform \<Rightarrow> 32 word \<Rightarrow> byte list" where
  "object_rep32 P w = (if big_endian_host P then be32 w else rev (be32 w))"

definition of_object_rep32 :: "platform \<Rightarrow> byte list \<Rightarrow> 32 word" where
  "of_object_rep32 P bs = of_be32 (if big_endian_host P then bs else rev bs)"

definition object_rep16 :: "platform \<Rightarrow> 16 word \<Rightarrow> byte list" where
  "object_rep16 P w = (if big_endian_host P then be16 w else rev (be16 w))"

definition of_object_rep16 :: "platform \<Rightarrow> byte list \<Rightarrow> 16 word" where
  "of_object_rep16 P bs = of_be16 (if big_endian_host P then bs else rev bs)"

lemma of_object_rep_inverse [simp]:
  "of_object_rep32 P (object_rep32 P w) = w" "of_object_rep16 P (object_rep16 P v) = v"
  by (simp_all add: of_object_rep32_def object_rep32_def of_object_rep16_def object_rep16_def)

lemma length_object_rep [simp, wire_simps]:
  "length (object_rep32 P w) = 4" "length (object_rep16 P v) = 2"
  by (simp_all add: object_rep32_def object_rep16_def)

text \<open>The documented contract of the conversions, and what the header code gets from it.\<close>

locale endian_conversion =
  fixes P :: platform
  assumes to_big32: "object_rep32 P (native_to_big32 P w) = be32 w"
    and to_big16: "object_rep16 P (native_to_big16 P v) = be16 v"
    and from_big32: "big_to_native32 P (native_to_big32 P w) = w"
    and from_big16: "big_to_native16 P (native_to_big16 P v) = v"
begin

lemma load_big32:
  assumes "length bs = 4"
  shows "big_to_native32 P (of_object_rep32 P bs) = of_be32 bs"
proof -
  from assms have "of_object_rep32 P bs = native_to_big32 P (of_be32 bs)"
    by (metis be32_of_be32 of_object_rep_inverse(1) to_big32)
  then show ?thesis by (simp add: from_big32)
qed

lemma load_big16:
  assumes "length bs = 2"
  shows "big_to_native16 P (of_object_rep16 P bs) = of_be16 bs"
proof -
  from assms have "of_object_rep16 P bs = native_to_big16 P (of_be16 bs)"
    by (metis be16_of_be16 of_object_rep_inverse(2) to_big16)
  then show ?thesis by (simp add: from_big16)
qed

end

text \<open>The two kinds of host: on a little-endian one the conversions reverse the bytes, on a
  big-endian one they do nothing.\<close>

definition swap32 :: "32 word \<Rightarrow> 32 word" where
  "swap32 w = of_be32 (rev (be32 w))"

definition swap16 :: "16 word \<Rightarrow> 16 word" where
  "swap16 w = of_be16 (rev (be16 w))"

definition little_endian_platform :: platform where
  "little_endian_platform =
     \<lparr>big_endian_host = False, native_to_big32 = swap32, big_to_native32 = swap32,
      native_to_big16 = swap16, big_to_native16 = swap16\<rparr>"

definition big_endian_platform :: platform where
  "big_endian_platform =
     \<lparr>big_endian_host = True, native_to_big32 = id, big_to_native32 = id,
      native_to_big16 = id, big_to_native16 = id\<rparr>"

interpretation le: endian_conversion little_endian_platform
  by unfold_locales
    (simp_all add: little_endian_platform_def object_rep32_def object_rep16_def
      swap32_def swap16_def)

interpretation be: endian_conversion big_endian_platform
  by unfold_locales
    (simp_all add: big_endian_platform_def object_rep32_def object_rep16_def)

section \<open>The header object\<close>

definition max_data_size :: nat where "max_data_size = 32"
definition length_offset :: nat where "length_offset = 0"
definition version_offset :: nat where "version_offset = length_offset + 4"
definition type_offset :: nat where "type_offset = version_offset + 2"
definition type_size :: nat where "type_size = max_data_size - type_offset"

lemmas layout_defs =
  max_data_size_def length_offset_def version_offset_def type_offset_def type_size_def

record message_header =
  message_type :: string
  message_length :: "32 word"
  message_version :: "16 word"
  data :: "byte list"

text \<open>\<open>message_header() = default\<close> leaves the array \<open>data_\<close> uninitialised: its contents are
  whatever the memory held.\<close>

definition new_message_header :: "byte list \<Rightarrow> message_header" where
  "new_message_header memory =
     \<lparr>message_type = '''', message_length = 0, message_version = 1, data = memory\<rparr>"

type_synonym header_result = "(failure + unit) \<times> message_header"

definition msg_type_too_long :: string where
  "msg_type_too_long =
     ''message_type: '' @ utf8 [230, 150, 135, 229, 173, 151, 229, 136, 151, 229, 185, 133,
       227, 129, 140, 230, 156, 128, 229, 164, 167, 227, 130, 181, 227, 130, 164, 227, 130,
       186, 227, 130, 146, 232, 182, 133, 227, 129, 136, 227, 129, 166, 227, 129, 132, 227,
       129, 190, 227, 129, 153]"

definition msg_type_empty :: string where
  "msg_type_empty =
     ''encode_header: message_type_ '' @ utf8 [227, 129, 140, 231, 169, 186, 227, 129, 167,
       227, 129, 153]"

definition msg_no_NUL :: string where
  "msg_no_NUL =
     ''decode_header: data_ '' @ utf8 [227, 129, 171] @ '' NUL '' @ utf8 [231, 181, 130, 231,
       171, 175, 227, 129, 140, 232, 166, 139, 227, 129, 164, 227, 129, 139, 227, 130, 138,
       227, 129, 190, 227, 129, 155, 227, 130, 147, 239, 188, 136, 227, 131, 135, 227, 131,
       188, 227, 130, 191, 227, 129, 140, 228, 184, 141, 230, 173, 163, 227, 129, 167, 227,
       129, 153, 239, 188, 137]"

section \<open>Operations\<close>

definition set_message_type :: "string \<Rightarrow> message_header \<Rightarrow> header_result" where
  "set_message_type t h =
     (if length t \<ge> type_size
      then (Inl (Raised (throw_std Logic_error msg_type_too_long)), h)
      else (Inr (), h\<lparr>message_type := t\<rparr>))"

text \<open>The getters and the read-only \<open>data()\<close>.\<close>

definition get_message_type :: "message_header \<Rightarrow> string" where
  "get_message_type h = message_type h"

definition get_message_length :: "message_header \<Rightarrow> 32 word" where
  "get_message_length h = message_length h"

definition get_message_version :: "message_header \<Rightarrow> 16 word" where
  "get_message_version h = message_version h"

definition read_data :: "message_header \<Rightarrow> byte list" where
  "read_data h = data h"

lemmas getter_defs =
  get_message_type_def get_message_length_def get_message_version_def read_data_def

definition set_message_length :: "32 word \<Rightarrow> message_header \<Rightarrow> message_header" where
  "set_message_length l h = h\<lparr>message_length := l\<rparr>"

definition set_message_version :: "16 word \<Rightarrow> message_header \<Rightarrow> message_header" where
  "set_message_version v h = h\<lparr>message_version := v\<rparr>"

definition header_length :: "message_header \<Rightarrow> 32 word" where
  "header_length h = word_of_nat (length (data h))"

text \<open>The non-const \<open>data()\<close> hands out a reference to the array; a receiver writes bytes
  through it.\<close>

definition write_data :: "nat \<Rightarrow> byte list \<Rightarrow> message_header \<Rightarrow> header_result" where
  "write_data off bs h =
     (case memcpy_to off bs (data h) of
        None \<Rightarrow> (Inl (Fault Buffer_overflow), h)
      | Some d \<Rightarrow> (Inr (), h\<lparr>data := d\<rparr>))"

definition encode_header :: "platform \<Rightarrow> message_header \<Rightarrow> header_result" where
  "encode_header P h =
     (if message_type h = []
      then (Inl (Raised (throw_std Logic_error msg_type_empty)), h)
      else
        let len_be = native_to_big32 P (message_length h);
            ver_be = native_to_big16 P (message_version h)
        in case memcpy_to length_offset (object_rep32 P len_be) (data h) of
          None \<Rightarrow> (Inl (Fault Buffer_overflow), h)
        | Some d1 \<Rightarrow>
          (case memcpy_to version_offset (object_rep16 P ver_be) d1 of
            None \<Rightarrow> (Inl (Fault Buffer_overflow), h\<lparr>data := d1\<rparr>)
          | Some d2 \<Rightarrow>
            (case memcpy_to type_offset (replicate type_size 0) d2 of
              None \<Rightarrow> (Inl (Fault Buffer_overflow), h\<lparr>data := d2\<rparr>)
            | Some d3 \<Rightarrow>
              (case memcpy_to type_offset (bytes_of (message_type h)) d3 of
                None \<Rightarrow> (Inl (Fault Buffer_overflow), h\<lparr>data := d3\<rparr>)
              | Some d4 \<Rightarrow> (Inr (), h\<lparr>data := d4\<rparr>)))))"

definition decode_header :: "platform \<Rightarrow> message_header \<Rightarrow> header_result" where
  "decode_header P h =
     (case memcpy_from length_offset 4 (data h) of
        None \<Rightarrow> (Inl (Fault Buffer_overflow), h)
      | Some len_bytes \<Rightarrow>
        let h1 = h\<lparr>message_length := big_to_native32 P (of_object_rep32 P len_bytes)\<rparr>
        in case memcpy_from version_offset 2 (data h1) of
          None \<Rightarrow> (Inl (Fault Buffer_overflow), h1)
        | Some ver_bytes \<Rightarrow>
          let h2 = h1\<lparr>message_version := big_to_native16 P (of_object_rep16 P ver_bytes)\<rparr>
          in case memcpy_from type_offset type_size (data h2) of
            None \<Rightarrow> (Inl (Fault Buffer_overflow), h2)
          | Some src \<Rightarrow>
            let end_pos = find_pos 0 src
            in if end_pos = type_size
               then (Inl (Raised (throw_std Runtime_error msg_no_NUL)), h2)
               else (Inr (), h2\<lparr>message_type := chars_of (take end_pos src)\<rparr>))"

section \<open>Invariant\<close>

definition header_wf :: "message_header \<Rightarrow> bool" where
  "header_wf h \<longleftrightarrow> length (data h) = max_data_size \<and> length (message_type h) < type_size"

lemma header_wfD:
  assumes "header_wf h"
  shows "length (data h) = 32" "length (message_type h) < 26"
  using assms by (simp_all add: header_wf_def layout_defs)

lemma new_message_header_wf: "length memory = max_data_size \<Longrightarrow> header_wf (new_message_header memory)"
  by (simp add: header_wf_def new_message_header_def layout_defs)

text \<open>The frame \<open>encode_header\<close> writes.\<close>

definition frame :: "32 word \<Rightarrow> 16 word \<Rightarrow> string \<Rightarrow> byte list" where
  "frame len ver t = be32 len @ be16 ver @ bytes_of t @ replicate (type_size - length t) 0"

lemma length_frame [simp]: "length t \<le> type_size \<Longrightarrow> length (frame len ver t) = max_data_size"
  by (simp add: frame_def layout_defs)

lemma frame_fields:
  "take 4 (frame len ver t) = be32 len"
  "take 2 (drop 4 (frame len ver t)) = be16 ver"
  "drop 6 (frame len ver t) = bytes_of t @ replicate (type_size - length t) 0"
  by (simp_all add: frame_def)

text \<open>The four copies of \<open>encode_header\<close>, in order, build the frame from any buffer of the right
  size.\<close>

lemma copies_build_frame:
  assumes "length d = 32" and "length t < 26"
    and "memcpy_to 0 (be32 len) d = Some d1" and "memcpy_to 4 (be16 ver) d1 = Some d2"
    and "memcpy_to 6 (replicate 26 0) d2 = Some d3" and "memcpy_to 6 (bytes_of t) d3 = Some d4"
  shows "d4 = frame len ver t"
  using assms
  by (auto simp: memcpy_to_def frame_def layout_defs split: if_splits)

lemma decode_header_parts:
  assumes "length (data h) = 32"
  shows "decode_header P h =
    (let h2 = h\<lparr>message_length := big_to_native32 P (of_object_rep32 P (take 4 (data h))),
               message_version := big_to_native16 P (of_object_rep16 P (take 2 (drop 4 (data h))))\<rparr>;
         src = drop 6 (data h)
     in if 0 \<in> set src
        then (Inr (), h2\<lparr>message_type := chars_of (takeWhile (\<lambda>b. b \<noteq> 0) src)\<rparr>)
        else (Inl (Raised (throw_std Runtime_error msg_no_NUL)), h2))"
proof -
  have "find_pos 0 (drop 6 (data h)) = 26 \<longleftrightarrow> 0 \<notin> set (drop 6 (data h))"
    using find_pos_eq_length [of 0 "drop 6 (data h)"] assms by simp
  then show ?thesis
    using assms by (simp add: decode_header_def memcpy_from_def layout_defs Let_def)
qed


context endian_conversion
begin

lemma encode_frame:
  assumes "header_wf h" and "message_type h \<noteq> []"
  shows "encode_header P h =
    (Inr (), h\<lparr>data := frame (message_length h) (message_version h) (message_type h)\<rparr>)"
proof -
  note wf = header_wfD [OF assms(1)]
  let ?t = "bytes_of (message_type h)"
  obtain d1 where d1: "memcpy_to 0 (be32 (message_length h)) (data h) = Some d1"
    using wf by (simp add: memcpy_to_def)
  then have l1: "length d1 = 32" using wf by (auto dest: memcpy_to_SomeD)
  then obtain d2 where d2: "memcpy_to 4 (be16 (message_version h)) d1 = Some d2"
    by (simp add: memcpy_to_def)
  then have l2: "length d2 = 32" using l1 by (auto dest: memcpy_to_SomeD)
  then obtain d3 where d3: "memcpy_to 6 (replicate 26 0) d2 = Some d3"
    by (simp add: memcpy_to_def)
  then have l3: "length d3 = 32" using l2 by (auto dest: memcpy_to_SomeD)
  then obtain d4 where d4: "memcpy_to 6 ?t d3 = Some d4"
    using wf by (simp add: memcpy_to_def)
  have "d4 = frame (message_length h) (message_version h) (message_type h)"
    by (rule copies_build_frame [OF wf d1 d2 d3 d4])
  then show ?thesis
    using assms(2) d1 d2 d3 d4
    by (simp add: encode_header_def layout_defs Let_def to_big32 to_big16)
qed

lemma decode_fields:
  assumes "length (data h) = 32"
  shows "decode_header P h =
    (let h2 = h\<lparr>message_length := of_be32 (take 4 (data h)),
               message_version := of_be16 (take 2 (drop 4 (data h)))\<rparr>;
         src = drop 6 (data h)
     in if 0 \<in> set src
        then (Inr (), h2\<lparr>message_type := chars_of (takeWhile (\<lambda>b. b \<noteq> 0) src)\<rparr>)
        else (Inl (Raised (throw_std Runtime_error msg_no_NUL)), h2))"
  using assms by (simp add: decode_header_parts load_big32 load_big16)

end

lemma c_str_bytes: "chars_of (takeWhile (\<lambda>b. b \<noteq> 0) (bytes_of t)) = c_str t"
  by (simp add: c_str_def takeWhile_map comp_def)

lemma takeWhile_padded:
  "chars_of (takeWhile (\<lambda>b. b \<noteq> 0) (bytes_of t @ replicate (Suc n) 0)) = c_str t"
proof (cases "CHR 0x00 \<in> set t")
  case True
  then have "(0::byte) \<in> set (bytes_of t)" by (force simp: image_iff)
  then have "takeWhile (\<lambda>b. b \<noteq> 0) (bytes_of t @ replicate (Suc n) 0) =
      takeWhile (\<lambda>b. b \<noteq> 0) (bytes_of t)"
    by (metis (mono_tags, lifting) takeWhile_append1)
  then show ?thesis by (simp add: c_str_bytes)
next
  case False
  then have no0: "\<And>b. b \<in> set (bytes_of t) \<Longrightarrow> b \<noteq> 0" by auto
  have "takeWhile (\<lambda>b. b \<noteq> 0) (bytes_of t @ replicate (Suc n) 0) = bytes_of t"
    using takeWhile_append2 [of "bytes_of t" "\<lambda>b. b \<noteq> 0", OF no0] by simp
  then show ?thesis using False by (simp add: c_str_id comp_def)
qed

context endian_conversion
begin

lemma decode_frame:
  assumes "length t < 26" and "data h = frame len ver t"
  shows "decode_header P h =
    (Inr (), h\<lparr>message_type := c_str t, message_length := len, message_version := ver\<rparr>)"
proof -
  have len: "length (data h) = 32" using assms by (simp add: layout_defs)
  obtain n where n: "type_size - length t = Suc n"
    using assms(1) by (cases "type_size - length t") (auto simp: layout_defs)
  have src: "drop 6 (data h) = bytes_of t @ replicate (Suc n) 0"
    using assms(2) n frame_fields(3) by simp
  show ?thesis
    unfolding decode_fields [OF len] src Let_def takeWhile_padded
    by (simp add: assms(2) frame_fields)
qed

end

section \<open>Sequences of operations\<close>

datatype header_op =
    Set_type string | Set_length "32 word" | Set_version "16 word"
  | Write_data nat "byte list" | Encode | Decode

fun run_header_op :: "platform \<Rightarrow> header_op \<Rightarrow> message_header \<Rightarrow> header_result" where
  "run_header_op P (Set_type t) h = set_message_type t h"
| "run_header_op P (Set_length l) h = (Inr (), set_message_length l h)"
| "run_header_op P (Set_version v) h = (Inr (), set_message_version v h)"
| "run_header_op P (Write_data off bs) h = write_data off bs h"
| "run_header_op P Encode h = encode_header P h"
| "run_header_op P Decode h = decode_header P h"

text \<open>A caller that catches every exception and goes on with the object as it is then.\<close>

fun run_header_ops :: "platform \<Rightarrow> header_op list \<Rightarrow> message_header \<Rightarrow> (failure + unit) list \<times> message_header" where
  "run_header_ops P [] h = ([], h)"
| "run_header_ops P (x # xs) h =
     (let (r, h1) = run_header_op P x h; (rs, h2) = run_header_ops P xs h1 in (r # rs, h2))"

fun in_range :: "header_op \<Rightarrow> bool" where
  "in_range (Write_data off bs) = (off + length bs \<le> max_data_size)"
| "in_range _ = True"

lemma replicate_eq_iff: "length xs = m \<Longrightarrow> replicate m x = xs \<longleftrightarrow> (\<forall>y \<in> set xs. y = x)"
  by (metis in_set_replicate replicate_eqI)

lemma length_takeWhile_lt: "x \<in> set xs \<Longrightarrow> \<not> Q x \<Longrightarrow> length (takeWhile Q xs) < length xs"
  by (induction xs) auto

lemma decode_header_wf:
  assumes "header_wf h"
  shows "header_wf (snd (decode_header P h))"
    and "\<nexists>u. fst (decode_header P h) = Inl (Fault u)"
proof -
  note wf = header_wfD [OF assms]
  have "0 \<in> set (drop 6 (data h)) \<Longrightarrow>
      length (takeWhile (\<lambda>b. b \<noteq> 0) (drop 6 (data h))) < 26"
    using length_takeWhile_lt [of 0 "drop 6 (data h)" "\<lambda>b. b \<noteq> 0"] wf by simp
  then show "header_wf (snd (decode_header P h))"
    using assms wf by (simp add: decode_header_parts Let_def header_wf_def layout_defs)
  show "\<nexists>u. fst (decode_header P h) = Inl (Fault u)"
    using wf by (simp add: decode_header_parts Let_def)
qed

lemma encode_header_wf:
  assumes "header_wf h"
  shows "header_wf (snd (encode_header P h))"
    and "\<nexists>u. fst (encode_header P h) = Inl (Fault u)"
  using assms
  by (simp_all add: encode_header_def memcpy_to_def header_wf_def layout_defs Let_def)

lemma run_header_op_wf:
  assumes "header_wf h" and "in_range x"
  shows "header_wf (snd (run_header_op P x h)) \<and> (\<nexists>u. fst (run_header_op P x h) = Inl (Fault u))"
proof (cases x)
  case (Write_data off bs)
  with assms show ?thesis
    by (auto simp: write_data_def memcpy_to_def header_wf_def)
next
  case Encode
  with assms show ?thesis using encode_header_wf [of h P] by simp
next
  case Decode
  with assms show ?thesis using decode_header_wf [of h P] by simp
qed (use assms in \<open>auto simp: set_message_type_def set_message_length_def
       set_message_version_def header_wf_def not_le\<close>)

lemma run_header_ops_wf:
  "header_wf h \<Longrightarrow> list_all in_range xs \<Longrightarrow>
   header_wf (snd (run_header_ops P xs h)) \<and>
   list_all (\<lambda>r. \<nexists>u. r = Inl (Fault u)) (fst (run_header_ops P xs h))"
proof (induction xs arbitrary: h)
  case Nil
  then show ?case by simp
next
  case (Cons x xs)
  obtain r h1 where step: "run_header_op P x h = (r, h1)" by fastforce
  with run_header_op_wf [OF Cons.prems(1), of x P] Cons.prems(2)
  have "header_wf h1" and "\<nexists>u. r = Inl (Fault u)" by auto
  with Cons.IH [of h1] Cons.prems(2) step show ?case
    by (auto simp: Let_def split: prod.splits)
qed

text \<open>What \<open>decode_header\<close> accepted is a well-formed header: its fields and the terminator are the
  bytes it was decoded from.\<close>

lemma decoded_parts:
  assumes "endian_conversion P" and "length (data h) = 32" and "decode_header P h = (Inr (), h1)"
  shows "header_wf h1" "length (message_type h1) < 26"
    "\<exists>A. length A = 6 + length (message_type h1) \<and>
      data h = A @ 0 # drop (7 + length (message_type h1)) (data h) \<and>
      frame (message_length h1) (message_version h1) (message_type h1) =
        A @ 0 # replicate (25 - length (message_type h1)) 0"
proof -
  let ?src = "drop 6 (data h)"
  let ?n = "length (message_type h1)"
  have h1: "h1 = h\<lparr>message_type := chars_of (takeWhile (\<lambda>b. b \<noteq> 0) ?src),
      message_length := of_be32 (take 4 (data h)),
      message_version := of_be16 (take 2 (drop 4 (data h)))\<rparr>" and nul: "0 \<in> set ?src"
    using assms(3) endian_conversion.decode_fields [OF assms(1,2)]
    by (auto simp: Let_def split: if_splits)
  show n: "?n < 26"
    using length_takeWhile_lt [OF nul, of "\<lambda>b. b \<noteq> 0"] assms(2) h1 by simp
  show "header_wf h1" using n h1 assms(2) by (simp add: header_wf_def layout_defs)
  have ty: "bytes_of (message_type h1) = take ?n ?src"
    using takeWhile_eq_take [of "\<lambda>b. b \<noteq> 0" ?src] h1 by (simp add: comp_def)
  have "?src ! ?n = 0"
    using nth_length_takeWhile [of "\<lambda>b. b \<noteq> 0" ?src] n assms(2) h1 by simp
  then have rest: "drop (6 + ?n) (data h) = 0 # drop (7 + ?n) (data h)"
    using n assms(2) Cons_nth_drop_Suc [of "6 + ?n" "data h"] by simp
  define A where "A = take 4 (data h) @ take 2 (drop 4 (data h)) @ take ?n ?src"
  have "data h = A @ drop (6 + ?n) (data h)"
    using append_take_drop_id [of 4 "data h"] append_take_drop_id [of 2 "drop 4 (data h)"]
      append_take_drop_id [of ?n ?src] by (simp add: A_def add.commute)
  moreover have "replicate (26 - ?n) 0 = (0 :: byte) # replicate (25 - ?n) 0"
    using n by (simp add: Suc_diff_le flip: replicate_Suc)
  then have "frame (message_length h1) (message_version h1) (message_type h1) = A @ 0 # replicate (25 - ?n) 0"
    using ty assms(2) by (simp add: frame_def layout_defs h1 A_def)
  moreover have "length A = 6 + ?n" using n assms(2) by (simp add: A_def)
  ultimately show "\<exists>A. length A = 6 + ?n \<and> data h = A @ 0 # drop (7 + ?n) (data h) \<and>
      frame (message_length h1) (message_version h1) (message_type h1) = A @ 0 # replicate (25 - ?n) 0"
    unfolding rest by blast
qed

section \<open>Properties\<close>

definition sample_header :: message_header where
  "sample_header =
     \<lparr>message_type = ''login'', message_length = 258, message_version = 3,
      data = replicate 32 255\<rparr>"

lemma sample_header_facts:
  "header_wf sample_header" "message_type sample_header = ''login''"
  "CHR 0x00 \<notin> set (message_type sample_header)"
  by (simp_all add: sample_header_def header_wf_def layout_defs)

text \<open>C21: For every well-formed header with a type, \<open>encode_header\<close> succeeds and the 32 bytes it
  leaves in \<open>data_\<close> are the big-endian length, the big-endian version, the type and NUL
  padding, whatever the byte order of the host and the previous contents of the buffer.\<close>

theorem header_wire_layout:
  assumes "endian_conversion P" and "header_wf h" and "message_type h \<noteq> []"
  shows "encode_header P h =
    (Inr (), h\<lparr>data := be32 (message_length h) @ be16 (message_version h) @
       bytes_of (message_type h) @ replicate (26 - length (message_type h)) 0\<rparr>)"
  using endian_conversion.encode_frame [OF assms] by (simp add: frame_def layout_defs)

theorem header_wire_layout_witness:
  "data (snd (encode_header little_endian_platform sample_header)) =
     [0, 0, 1, 2, 0, 3] @ bytes_of ''login'' @ replicate 21 0"
  by (simp add: header_wire_layout [OF le.endian_conversion_axioms sample_header_facts(1)]
      sample_header_facts(2)) (simp add: sample_header_def be32_def be16_def)

text \<open>C20: A header encoded on one host, copied into another header object and decoded on a host
  of any byte order gives back the same type, length and version, when the type is not empty
  and holds no NUL byte.\<close>

theorem header_roundtrip:
  assumes "endian_conversion P" and "endian_conversion Q"
    and "header_wf h" and "header_wf h'"
    and "message_type h \<noteq> []" and "CHR 0x00 \<notin> set (message_type h)"
  shows "decode_header Q (snd (write_data 0 (data (snd (encode_header P h))) h')) =
    (Inr (), h\<lparr>data := data (snd (encode_header P h))\<rparr>)"
proof -
  let ?f = "frame (message_length h) (message_version h) (message_type h)"
  have enc: "data (snd (encode_header P h)) = ?f"
    using endian_conversion.encode_frame [OF assms(1,3,5)] by simp
  have "snd (write_data 0 ?f h') = h'\<lparr>data := ?f\<rparr>"
    using header_wfD [OF assms(3)] header_wfD [OF assms(4)]
    by (simp add: write_data_def memcpy_to_def layout_defs)
  moreover have "decode_header Q (h'\<lparr>data := ?f\<rparr>) =
      (Inr (), h'\<lparr>data := ?f, message_type := c_str (message_type h),
        message_length := message_length h, message_version := message_version h\<rparr>)"
    using endian_conversion.decode_frame [OF assms(2) header_wfD(2) [OF assms(3)]] by simp
  ultimately show ?thesis
    using enc c_str_id [OF assms(6)] by simp
qed

theorem header_roundtrip_witness:
  "decode_header big_endian_platform
     (snd (write_data 0 (data (snd (encode_header little_endian_platform sample_header)))
        (new_message_header (replicate 32 7)))) =
   (Inr (), sample_header\<lparr>data := data (snd (encode_header little_endian_platform sample_header))\<rparr>)"
  by (rule header_roundtrip [OF le.endian_conversion_axioms be.endian_conversion_axioms])
    (simp_all add: sample_header_facts new_message_header_wf layout_defs)

text \<open>The type is a \<open>std::string\<close> and may hold NUL bytes, which the setter accepts; decoding an
  encoded header then still succeeds, but the type ends at the first NUL, so the type survives
  exactly when it holds none.\<close>

theorem header_type_survives_iff:
  assumes "endian_conversion P" and "header_wf h" and "message_type h \<noteq> []"
    and "(r, h') = decode_header P (snd (encode_header P h))"
  shows "r = Inr () \<and> message_type h' = takeWhile (\<lambda>c. c \<noteq> CHR 0x00) (message_type h) \<and>
    (message_type h' = message_type h \<longleftrightarrow> CHR 0x00 \<notin> set (message_type h))"
proof -
  have "decode_header P (snd (encode_header P h)) =
      (Inr (), (snd (encode_header P h))\<lparr>message_type := c_str (message_type h)\<rparr>)"
    using endian_conversion.encode_frame [OF assms(1-3)]
      endian_conversion.decode_frame [OF assms(1) header_wfD(2) [OF assms(2)]]
    by simp
  then show ?thesis
    using assms(4) c_str_no_NUL [of "message_type h"] c_str_id [of "message_type h"]
    by (auto simp: c_str_def)
qed

theorem header_type_survives_iff_witness:
  "\<exists>r h'. (r, h') = decode_header little_endian_platform
        (snd (encode_header little_endian_platform
          (sample_header\<lparr>message_type := ''ab'' @ [CHR 0x00] @ ''c''\<rparr>))) \<and>
     message_type h' = ''ab''"
proof -
  let ?h = "sample_header\<lparr>message_type := ''ab'' @ [CHR 0x00] @ ''c''\<rparr>"
  obtain r h' where rh: "(r, h') =
      decode_header little_endian_platform (snd (encode_header little_endian_platform ?h))"
    by (metis surj_pair)
  have "header_wf ?h" "message_type ?h \<noteq> []"
    by (simp_all add: sample_header_def header_wf_def layout_defs)
  from header_type_survives_iff [OF le.endian_conversion_axioms this rh] rh
  show ?thesis by auto
qed

text \<open>C27: Decoding an arbitrary 32-byte buffer: it succeeds exactly when one of the 26 type bytes is
  NUL; otherwise it throws \<open>std::runtime_error\<close>, with the length and version already
  overwritten from the buffer and the type left as it was.\<close>

theorem decode_any_buffer:
  assumes "endian_conversion P" and "length (data h) = 32"
  shows "decode_header P h =
    (if 0 \<in> set (drop 6 (data h))
     then (Inr (), h\<lparr>message_type := chars_of (takeWhile (\<lambda>b. b \<noteq> 0) (drop 6 (data h))),
                    message_length := of_be32 (take 4 (data h)),
                    message_version := of_be16 (take 2 (drop 4 (data h)))\<rparr>)
     else (Inl (Raised (throw_std Runtime_error msg_no_NUL)),
           h\<lparr>message_length := of_be32 (take 4 (data h)),
             message_version := of_be16 (take 2 (drop 4 (data h)))\<rparr>))"
  using endian_conversion.decode_fields [OF assms] by (simp add: Let_def)

theorem decode_any_buffer_witness:
  "decode_header big_endian_platform (sample_header\<lparr>data := [0, 0, 0, 9, 0, 5] @ replicate 26 65\<rparr>) =
   (Inl (Raised (throw_std Runtime_error msg_no_NUL)),
    sample_header\<lparr>data := [0, 0, 0, 9, 0, 5] @ replicate 26 65,
      message_length := 9, message_version := 5\<rparr>)"
  by (subst decode_any_buffer [OF be.endian_conversion_axioms]) (simp_all add: sample_header_def)

text \<open>C28: Re-encoding a decoded header, for every buffer that decodes: with an empty type it is refused
  and changes nothing; otherwise it succeeds, every byte up to and including the terminator of the type comes
  back, and every byte after it is set to NUL; so the buffer comes back whole exactly when these
  bytes were NUL already.\<close>

theorem decode_encode_canonical:
  assumes "endian_conversion P" and "length (data h) = 32"
    and "decode_header P h = (Inr (), h1)" and "encode_header P h1 = (r, h2)"
  shows "if message_type h1 = [] then r = Inl (Raised (throw_std Logic_error msg_type_empty)) \<and> h2 = h1
    else r = Inr () \<and> length (data h2) = 32 \<and>
      take (7 + length (message_type h1)) (data h2) = take (7 + length (message_type h1)) (data h) \<and>
      (\<forall>b \<in> set (drop (7 + length (message_type h1)) (data h2)). b = 0) \<and>
      (data h2 = data h \<longleftrightarrow> (\<forall>b \<in> set (drop (7 + length (message_type h1)) (data h)). b = 0))"
proof (cases "message_type h1 = []")
  case True
  with assms(4) show ?thesis by (simp add: encode_header_def)
next
  case False
  let ?n = "length (message_type h1)"
  note parts = decoded_parts [OF assms(1-3)]
  obtain A where A: "length A = 6 + ?n" "data h = A @ 0 # drop (7 + ?n) (data h)"
    "frame (message_length h1) (message_version h1) (message_type h1) = A @ 0 # replicate (25 - ?n) 0"
    using parts(3) by blast
  have h2: "r = Inr ()" "data h2 = A @ 0 # replicate (25 - ?n) 0"
    using endian_conversion.encode_frame [OF assms(1) parts(1) False] assms(4) A(3) by simp_all
  have "take (7 + ?n) (data h2) = take (7 + ?n) (data h)" and "drop (7 + ?n) (data h2) = replicate (25 - ?n) 0"
    using A(1) by (simp_all add: h2(2), subst A(2), simp)
  moreover have "data h2 = data h \<longleftrightarrow> replicate (25 - ?n) 0 = drop (7 + ?n) (data h)"
    using A(2) h2(2) by (metis same_append_eq list.inject)
  moreover have "replicate (25 - ?n) 0 = drop (7 + ?n) (data h) \<longleftrightarrow>
      (\<forall>b \<in> set (drop (7 + ?n) (data h)). b = 0)"
    using assms(2) by (intro replicate_eq_iff) simp
  moreover have "length (data h2) = 32" using A(1) h2(2) parts(2) by simp
  ultimately show ?thesis using False h2(1) by simp
qed

theorem decode_encode_canonical_witness:
  "\<exists>h1 r h2. decode_header big_endian_platform
      (sample_header\<lparr>data := [0, 0, 0, 9, 0, 5] @ [65, 0] @ replicate 24 66\<rparr>) = (Inr (), h1) \<and>
     encode_header big_endian_platform h1 = (r, h2) \<and> take 8 (data h2) = [0, 0, 0, 9, 0, 5, 65, 0] \<and>
     data h2 \<noteq> [0, 0, 0, 9, 0, 5] @ [65, 0] @ replicate 24 66"
proof -
  let ?d = "[0, 0, 0, 9, 0, 5] @ [65, 0] @ replicate 24 66 :: byte list"
  let ?h = "sample_header\<lparr>data := ?d\<rparr>"
  let ?h1 = "?h\<lparr>message_type := ''A'', message_length := 9, message_version := 5\<rparr>"
  have "char_of (65 :: nat) = CHR ''A''" by code_simp
  then have dec: "decode_header big_endian_platform ?h = (Inr (), ?h1)"
    using be.decode_fields [of ?h] by (simp add: Let_def char_of_byte_def sample_header_def)
  obtain r h2 where enc: "encode_header big_endian_platform ?h1 = (r, h2)" by (metis surj_pair)
  have "take 8 (data h2) = [0, 0, 0, 9, 0, 5, 65, 0] \<and> data h2 \<noteq> ?d"
    using decode_encode_canonical [OF be.endian_conversion_axioms _ dec enc] by simp
  with dec enc show ?thesis by blast
qed

text \<open>C29: Starting from a new header over any uninitialised array, no sequence of setters, encodings,
  decodings and in-range writes through \<open>data()\<close> reads or writes outside the 32 bytes, however
  many of the calls throw; the buffer keeps its size and the type stays shorter than its field.\<close>

theorem header_operations_stay_in_bounds:
  assumes "length memory = max_data_size" and "list_all in_range xs"
    and "run_header_ops P xs (new_message_header memory) = (rs, h)"
  shows "length (data h) = 32 \<and> length (message_type h) \<le> 25 \<and> header_length h = 32 \<and>
    (\<forall>u. Inl (Fault u) \<notin> set rs)"
  using run_header_ops_wf [OF new_message_header_wf [OF assms(1)] assms(2), of P] assms(3)
  by (auto simp: header_wf_def layout_defs header_length_def list_all_iff)

theorem header_operations_stay_in_bounds_witness:
  "\<exists>rs h. run_header_ops little_endian_platform
       [Encode, Set_type (replicate 26 CHR ''x''), Set_type ''ping'', Encode, Write_data 6 (replicate 26 1),
        Decode] (new_message_header (replicate 32 170)) = (rs, h) \<and>
     length (data h) = 32 \<and> message_type h = ''ping'' \<and> length rs = 6"
proof -
  let ?xs = "[Encode, Set_type (replicate 26 CHR ''x''), Set_type ''ping'', Encode,
    Write_data 6 (replicate 26 1), Decode]"
  let ?m = "replicate 32 170 :: byte list"
  obtain rs h where run: "run_header_ops little_endian_platform ?xs (new_message_header ?m) = (rs, h)"
    by fastforce
  have "length (data h) = 32"
    using header_operations_stay_in_bounds [OF _ _ run] by (simp add: layout_defs)
  moreover have "message_type h = ''ping''" and "length rs = 6"
    using run
    by (auto simp: new_message_header_def encode_header_def decode_header_def write_data_def
        set_message_type_def layout_defs memcpy_to_def memcpy_from_def Let_def
        find_pos_takeWhile takeWhile_replicate split: if_splits)
  ultimately show ?thesis using run by blast
qed

end
