(* ===== verification/Keyed_Store.thy ===== *)
theory Keyed_Store
  imports Prelude "HOL-Library.Multiset"
begin

text \<open>
  The interface \<open>put\<close>/\<open>get\<close> of a keyed store in which a later \<open>put\<close> replaces an earlier one
  (\<open>creators_[type] = creator\<close>, \<open>obj["key"] = value\<close>), and what its clients derive from it.
\<close>

locale keyed_store =
  fixes get :: "'s \<Rightarrow> 'k \<Rightarrow> 'v option"
    and put :: "'k \<Rightarrow> 'v \<Rightarrow> 's \<Rightarrow> 's"
  assumes get_put: "get (put k v s) k' = (if k' = k then Some v else get s k')"
begin

lemma get_put_same [simp]: "get (put k v s) k = Some v"
  by (simp add: get_put)

lemma get_put_other [simp]: "k' \<noteq> k \<Longrightarrow> get (put k v s) k' = get s k'"
  by (simp add: get_put)

text \<open>A sequence of puts: the last one for a key decides.\<close>

lemma get_fold_put:
  "get (fold (\<lambda>(k, v). put k v) kvs s) k =
    (case map_of (rev kvs) k of Some v \<Rightarrow> Some v | None \<Rightarrow> get s k)"
  by (induction kvs arbitrary: s)
    (auto simp: get_put map_add_def split: option.splits prod.splits)

lemma get_fold_put_None:
  "k \<notin> fst ` set kvs \<Longrightarrow> get (fold (\<lambda>(k, v). put k v) kvs s) k = get s k"
  by (force simp: get_fold_put dest: map_of_SomeD split: option.split)

end

text \<open>A store with no more to it than its lookups.\<close>

locale extensional_store = keyed_store +
  assumes store_eqI: "(\<And>k. get s k = get s' k) \<Longrightarrow> s = s'"
begin

lemma put_commute: "k \<noteq> k' \<Longrightarrow> put k v (put k' v' s) = put k' v' (put k v s)"
  by (rule store_eqI) (simp add: get_put)

lemma put_put: "put k v (put k v' s) = put k v s"
  by (rule store_eqI) (simp add: get_put)

text \<open>With distinct keys the order of the puts does not matter.\<close>

lemma fold_put_permute:
  assumes "distinct (map fst kvs)" and "mset kvs = mset kvs'"
  shows "fold (\<lambda>(k, v). put k v) kvs s = fold (\<lambda>(k, v). put k v) kvs' s"
proof (rule store_eqI)
  fix k
  have "mset (map fst kvs) = mset (map fst kvs')"
    using assms(2) by (metis mset_map)
  then have "distinct (map fst kvs')"
    using assms(1) by (metis mset_eq_imp_distinct_iff)
  moreover have "set kvs = set kvs'"
    using assms(2) by (metis set_mset_mset)
  ultimately have "map_of (rev kvs) = map_of (rev kvs')"
    using assms(1) by (intro map_of_inject_set [THEN iffD2]) (simp_all flip: rev_map)
  then show "get (fold (\<lambda>(k, v). put k v) kvs s) k = get (fold (\<lambda>(k, v). put k v) kvs' s) k"
    by (simp only: get_fold_put)
qed

end

end
