(* ===== verification/Message_Factory.thy ===== *)
theory Message_Factory
  imports Exceptions Keyed_Store
begin

text \<open>
  The message factory and the self-registration helper: \<open>comm::messages::message_factory\<close>
  (\<open>libs/comm/include/comm/messages/message_factory.hpp\<close>,
  \<open>libs/comm/src/messages/message_factory.cpp\<close>) and \<open>message_register<T>\<close>
  (\<open>message_register.hpp\<close>).  The singleton object is the state passed along; a creator is a
  function of the heap, since creating a message allocates it.
\<close>

section \<open>State\<close>

text \<open>A \<open>boost::function\<close> may be empty; calling an empty one throws.\<close>

datatype ('h, 'm) bfun =
    Empty_function
  | Target "'h \<Rightarrow> (failure + 'm) \<times> 'h"

fun invoke :: "('h, 'm) bfun \<Rightarrow> 'h \<Rightarrow> (failure + 'm) \<times> 'h" where
  "invoke Empty_function h =
     (Inl (Raised (throw_std Bad_function_call ''call to empty boost::function'')), h)"
| "invoke (Target c) h = c h"

record ('h, 'm) message_factory =
  creators :: "string \<rightharpoonup> ('h, 'm) bfun"

definition new_message_factory :: "('h, 'm) message_factory" where
  "new_message_factory = \<lparr>creators = Map.empty\<rparr>"

section \<open>Operations\<close>

definition create_message ::
    "('h, 'm) message_factory \<Rightarrow> string \<Rightarrow> 'h \<Rightarrow> (failure + 'm) \<times> 'h" where
  "create_message f type h =
     (case creators f type of
        Some creator \<Rightarrow> invoke creator h
      | None \<Rightarrow> (Inl (Raised (throw_std Runtime_error (''Unknown message type: '' @ type))), h))"

definition register_message ::
    "string \<Rightarrow> ('h, 'm) bfun \<Rightarrow> ('h, 'm) message_factory \<Rightarrow> ('h, 'm) message_factory" where
  "register_message type creator f = f\<lparr>creators := (creators f)(type \<mapsto> creator)\<rparr>"

text \<open>
  A message class \<open>T\<close>: its static \<open>type()\<close> and its default constructor, which may throw.  The
  classes are the user's; the repository declares only their base \<open>message\<close>.
\<close>

record 'o message_class =
  type_name :: string
  construct :: "failure + 'o"

text \<open>\<open>message_register<T>::creator\<close>, that is \<open>std::make_shared<T>()\<close>, on a heap given as the
  list of the objects allocated so far; a pointer is an index into it.\<close>

definition register_creator :: "'o message_class \<Rightarrow> 'o list \<Rightarrow> (failure + nat) \<times> 'o list" where
  "register_creator T h =
     (case construct T of
        Inl e \<Rightarrow> (Inl e, h)
      | Inr obj \<Rightarrow> (Inr (length h), h @ [obj]))"

text \<open>The constructor \<open>message_register<T>()\<close>, and the start-up of a program that defines one such
  object per class.\<close>

definition message_register ::
    "'o message_class \<Rightarrow> ('o list, nat) message_factory \<Rightarrow> ('o list, nat) message_factory" where
  "message_register T f = register_message (type_name T) (Target (register_creator T)) f"

text \<open>Both reach the factory by \<open>instance()\<close>; before \<open>main\<close> the first use constructs it.\<close>

definition factory_instance :: "('h, 'm) message_factory option \<Rightarrow> ('h, 'm) message_factory" where
  "factory_instance slot = get_mutable_instance new_message_factory slot"

definition static_registration ::
    "'o message_class \<Rightarrow> ('o list, nat) message_factory option \<Rightarrow>
     ('o list, nat) message_factory option" where
  "static_registration T slot = Some (message_register T (factory_instance slot))"

definition register_all ::
    "'o message_class list \<Rightarrow> ('o list, nat) message_factory \<Rightarrow> ('o list, nat) message_factory" where
  "register_all Ts f = fold message_register Ts f"

section \<open>The factory as a keyed store\<close>

interpretation fstore: extensional_store "\<lambda>f. creators f" register_message
proof unfold_locales
  fix s s' :: "('a, 'b) message_factory"
  assume "\<And>k. creators s k = creators s' k"
  then show "s = s'" by (cases s; cases s') auto
qed (simp add: register_message_def)

abbreviation entry_of :: "'o message_class \<Rightarrow> string \<times> ('o list, nat) bfun" where
  "entry_of T \<equiv> (type_name T, Target (register_creator T))"

lemma register_all_fold:
  "register_all Ts f = fold (\<lambda>(k, c). register_message k c) (map entry_of Ts) f"
  unfolding register_all_def
  by (induction Ts arbitrary: f) (simp_all add: message_register_def)

text \<open>No registration is lost or made twice by the lazy construction of the factory.\<close>

lemma static_registrations_from:
  "factory_instance (fold static_registration Ts slot) = register_all Ts (factory_instance slot)"
  by (induction Ts arbitrary: slot)
    (simp_all add: static_registration_def register_all_def factory_instance_def)

lemma static_registrations:
  "factory_instance (fold static_registration Ts None) = register_all Ts new_message_factory"
  using static_registrations_from [of Ts None] by (simp add: factory_instance_def)

lemma map_of_entries:
  "map_of (map entry_of Ts) t =
     map_option (\<lambda>T. Target (register_creator T)) (find (\<lambda>T. type_name T = t) Ts)"
  by (induction Ts) auto

lemma creators_register_all:
  "creators (register_all Ts f) t =
    (case find (\<lambda>T. type_name T = t) (rev Ts) of
       Some T \<Rightarrow> Some (Target (register_creator T)) | None \<Rightarrow> creators f t)"
  unfolding register_all_fold fstore.get_fold_put rev_map map_of_entries
  by (cases "find (\<lambda>T. type_name T = t) (rev Ts)") simp_all

lemma register_creator_ok:
  "register_creator T h = (Inr p, h') \<longleftrightarrow> (\<exists>obj. construct T = Inr obj \<and> p = length h \<and> h' = h @ [obj])"
  by (auto simp: register_creator_def split: sum.splits)

lemma create_registered_ok:
  assumes "create_message (register_all Ts new_message_factory) t h = (Inr p, h')"
  shows "\<exists>obj. (\<exists>T \<in> set Ts. type_name T = t \<and> construct T = Inr obj) \<and> p = length h \<and> h' = h @ [obj]"
proof (cases "find (\<lambda>T. type_name T = t) (rev Ts)")
  case None
  with assms show ?thesis
    by (simp add: create_message_def creators_register_all new_message_factory_def)
next
  case (Some T)
  then have "type_name T = t" and "T \<in> set Ts"
    using find_SomeD by fastforce+
  moreover have "register_creator T h = (Inr p, h')"
    using assms Some by (simp add: create_message_def creators_register_all)
  ultimately show ?thesis by (auto simp: register_creator_ok)
qed

section \<open>Properties\<close>

text \<open>C37: After start-up, in whatever order the static registration objects of the classes \<open>Ts\<close> were
  constructed and whichever of them constructed the factory, \<open>create_message\<close> runs the
  constructor of the class registered last under the requested type: what it throws, and else a
  pointer to a new object.  When no class has the type it throws \<open>std::runtime_error\<close> naming the
  type, without allocating.\<close>

theorem create_after_start_up:
  "create_message (factory_instance (fold static_registration Ts None)) t h =
    (case find (\<lambda>T. type_name T = t) (rev Ts) of
       Some T \<Rightarrow>
         (case construct T of Inl f \<Rightarrow> (Inl f, h) | Inr obj \<Rightarrow> (Inr (length h), h @ [obj]))
     | None \<Rightarrow> (Inl (Raised (throw_std Runtime_error (''Unknown message type: '' @ t))), h))"
  unfolding static_registrations
  by (auto simp: create_message_def creators_register_all new_message_factory_def register_creator_def
      split: option.split)

text \<open>C38: The order in which the static registration objects of different types are constructed, which
  is unspecified across translation units, does not change the factory the program starts with,
  whether or not it was constructed before the first of them.\<close>

theorem start_up_order_irrelevant:
  assumes "distinct (map type_name Ts)" and "mset Ts = mset Ts'"
  shows "factory_instance (fold static_registration Ts slot) = factory_instance (fold static_registration Ts' slot)"
  unfolding static_registrations_from register_all_fold
  by (rule fstore.fold_put_permute) (use assms in \<open>simp_all add: comp_def\<close>)

theorem start_up_order_irrelevant_witness:
  "factory_instance (fold static_registration
      [\<lparr>type_name = ''a'', construct = Inr (1::nat)\<rparr>, \<lparr>type_name = ''b'', construct = Inr 2\<rparr>] None) =
   factory_instance (fold static_registration
      [\<lparr>type_name = ''b'', construct = Inr 2\<rparr>, \<lparr>type_name = ''a'', construct = Inr (1::nat)\<rparr>] None)"
  by (rule start_up_order_irrelevant) (simp_all add: add_mset_commute)

text \<open>Two successful \<open>create_message\<close> calls on registered classes return different objects, each
  in its class's default state, and leave every object allocated before untouched.\<close>

theorem created_messages_are_fresh:
  assumes "create_message (register_all Ts new_message_factory) t1 h = (Inr p1, h1)"
    and "create_message (register_all Ts new_message_factory) t2 h1 = (Inr p2, h2)"
  shows "p1 \<noteq> p2 \<and> length h \<le> p1 \<and> p1 < length h2 \<and> p2 < length h2 \<and>
    take (length h) h2 = h \<and>
    (\<exists>T \<in> set Ts. type_name T = t1 \<and> construct T = Inr (h2 ! p1)) \<and>
    (\<exists>T \<in> set Ts. type_name T = t2 \<and> construct T = Inr (h2 ! p2))"
proof -
  obtain o1 where "\<exists>T \<in> set Ts. type_name T = t1 \<and> construct T = Inr o1"
    and 1: "p1 = length h" "h1 = h @ [o1]"
    using create_registered_ok [OF assms(1)] by blast
  moreover obtain o2 where "\<exists>T \<in> set Ts. type_name T = t2 \<and> construct T = Inr o2"
    and 2: "p2 = length h1" "h2 = h1 @ [o2]"
    using create_registered_ok [OF assms(2)] by blast
  ultimately show ?thesis by (simp add: nth_append)
qed

theorem created_messages_are_fresh_witness:
  "\<exists>p1 p2 h1 h2.
    create_message (register_all [\<lparr>type_name = ''a'', construct = Inr (7::nat)\<rparr>] new_message_factory)
      ''a'' [5] = (Inr p1, h1) \<and>
    create_message (register_all [\<lparr>type_name = ''a'', construct = Inr 7\<rparr>] new_message_factory)
      ''a'' h1 = (Inr p2, h2) \<and> p1 \<noteq> p2 \<and> h2 = [5, 7, 7]"
proof -
  let ?f = "register_all [\<lparr>type_name = ''a'', construct = Inr (7::nat)\<rparr>] new_message_factory"
  have 1: "create_message ?f ''a'' [5] = (Inr 1, [5, 7])"
    and 2: "create_message ?f ''a'' [5, 7] = (Inr 2, [5, 7, 7])"
    by (simp_all add: create_message_def creators_register_all register_creator_def)
  show ?thesis using created_messages_are_fresh [OF 1 2] 1 2 by blast
qed

end
