(* ===== verification/Message_Exchange.thy ===== *)
theory Message_Exchange
  imports Message_Header Message_Factory
begin

text \<open>
  What the header and the factory give together: a sender describes a message in a header, the
  encoded bytes reach another header object, and the receiver asks the factory for the type it
  decodes.  The abstract \<open>comm::messages::message\<close>
  (\<open>libs/comm/include/comm/messages/message.hpp\<close>) is the record of its two virtual functions;
  its derived classes are the user's.
\<close>

section \<open>The message interface\<close>

text \<open>\<open>encode\<close> is a const member; \<open>decode\<close> changes the object it is called on.\<close>

record 'o message =
  encode :: "'o \<Rightarrow> failure + string"
  decode :: "string \<Rightarrow> 'o \<Rightarrow> (failure + unit) \<times> 'o"

section \<open>Describing and receiving\<close>

text \<open>The calls that describe a message of \<open>n\<close> payload bytes.\<close>

abbreviation describe :: "string \<Rightarrow> nat \<Rightarrow> 16 word \<Rightarrow> header_op list" where
  "describe t n v \<equiv> [Set_type t, Set_length (word_of_nat n), Set_version v, Encode]"

lemma describe_frame:
  assumes "endian_conversion P" and "length m1 = 32" and "t \<noteq> []" and "length t < 26"
  shows "run_header_ops P (describe t n v) (new_message_header m1) =
    (replicate 4 (Inr ()),
     \<lparr>message_type = t, message_length = word_of_nat n, message_version = v,
      data = frame (word_of_nat n) v t\<rparr>)"
proof -
  let ?h = "\<lparr>message_type = t, message_length = word_of_nat n, message_version = v, data = m1\<rparr>"
  have "header_wf ?h" using assms(2,4) by (simp add: header_wf_def layout_defs)
  from endian_conversion.encode_frame [OF assms(1) this] assms(3,4) show ?thesis
    by (simp add: set_message_type_def set_message_length_def set_message_version_def
        new_message_header_def layout_defs eval_nat_numeral)
qed

lemma describe_too_long:
  assumes "\<not> length t < 26"
  shows "run_header_ops P (describe t n v) (new_message_header m1) =
    ([Inl (Raised (throw_std Logic_error msg_type_too_long)), Inr (), Inr (),
      Inl (Raised (throw_std Logic_error msg_type_empty))],
     \<lparr>message_type = [], message_length = word_of_nat n, message_version = v, data = m1\<rparr>)"
  using assms
  by (simp add: set_message_type_def set_message_length_def set_message_version_def
      new_message_header_def encode_header_def layout_defs)

lemma describe_empty:
  "run_header_ops P (describe [] n v) (new_message_header m1) =
    (replicate 3 (Inr ()) @ [Inl (Raised (throw_std Logic_error msg_type_empty))],
     \<lparr>message_type = [], message_length = word_of_nat n, message_version = v, data = m1\<rparr>)"
  by (simp add: set_message_type_def set_message_length_def set_message_version_def
      new_message_header_def encode_header_def layout_defs eval_nat_numeral)

lemma receive_frame:
  assumes "endian_conversion Q" and "length m2 = 32" and "length t < 26"
    and "write_data 0 (frame len v t) (new_message_header m2) = (w, h1)"
  shows "decode_header Q h1 =
    (Inr (), \<lparr>message_type = c_str t, message_length = len, message_version = v,
      data = frame len v t\<rparr>)"
proof -
  have "h1 = new_message_header (frame len v t)"
    using assms(2-4) by (simp add: write_data_def memcpy_to_def new_message_header_def layout_defs)
  then show ?thesis
    using endian_conversion.decode_frame [OF assms(1,3), of h1] by (simp add: new_message_header_def)
qed

section \<open>Properties\<close>

text \<open>C22: The header and the factory together dispatch by the type up to its first NUL, for every type
  string: when the type is not empty and fits, on any pair of hosts, the receiver reads the
  payload length modulo 2^32 and the version, and \<open>create_message\<close> builds the class registered
  last under that prefix or throws.  An empty type is accepted by the setter and refused by
  \<open>encode_header\<close>; one that does not fit is refused by the setter, with \<open>std::logic_error\<close>, and
  again by \<open>encode_header\<close>.  In both cases the bytes of the buffer are not touched.\<close>

theorem typed_message_exchange:
  assumes "endian_conversion P" and "endian_conversion Q"
    and "length m1 = 32" and "length m2 = 32"
    and "run_header_ops P (describe t (length payload) v) (new_message_header m1) = (rs, h)"
    and "write_data 0 (read_data h) (new_message_header m2) = (w, h1)"
    and "decode_header Q h1 = (r, h2)"
  shows "if t = [] then
      rs = replicate 3 (Inr ()) @ [Inl (Raised (throw_std Logic_error msg_type_empty))] \<and> read_data h = m1
    else if length t \<le> 25
    then rs = replicate 4 (Inr ()) \<and> r = Inr () \<and>
      unat (get_message_length h2) = length payload mod 2 ^ 32 \<and> get_message_version h2 = v \<and>
      create_message (register_all Ts new_message_factory) (get_message_type h2) heap =
        (case find (\<lambda>T. type_name T = takeWhile (\<lambda>c. c \<noteq> CHR 0x00) t) (rev Ts) of
           Some T \<Rightarrow> register_creator T heap
         | None \<Rightarrow> (Inl (Raised (throw_std Runtime_error
             (''Unknown message type: '' @ takeWhile (\<lambda>c. c \<noteq> CHR 0x00) t))), heap))
    else rs = [Inl (Raised (throw_std Logic_error msg_type_too_long)), Inr (), Inr (),
        Inl (Raised (throw_std Logic_error msg_type_empty))] \<and> read_data h = m1"
proof (cases "t = []")
  case True
  with describe_empty [of P "length payload" v m1] assms(5) show ?thesis
    by (simp only: if_True read_data_def) auto
next
  case ne: False
  show ?thesis
  proof (cases "length t < 26")
    case True
    note sent = describe_frame [OF assms(1,3) ne True, of "length payload" v]
    with assms(5,6) have
      "write_data 0 (frame (word_of_nat (length payload)) v t) (new_message_header m2) = (w, h1)"
      by (auto simp: read_data_def)
    note received = receive_frame [OF assms(2,4) True this]
    show ?thesis
      using ne sent received assms(5,7) True
      by (auto simp: getter_defs unat_of_nat create_message_def creators_register_all
          new_message_factory_def c_str_def split: option.split)
  next
    case False
    with ne describe_too_long [OF False, of P "length payload" v m1] assms(5) show ?thesis
      by (auto simp: read_data_def)
  qed
qed

definition byte_class :: "nat message_class" where
  "byte_class = \<lparr>type_name = ''ping'', construct = Inr 7\<rparr>"

theorem typed_message_exchange_witness:
  "\<exists>rs h w h1 r h2.
     run_header_ops little_endian_platform (describe (''ping'' @ [CHR 0x00]) (length ''ok'') 2)
       (new_message_header (replicate 32 9)) = (rs, h) \<and>
     write_data 0 (read_data h) (new_message_header (replicate 32 8)) = (w, h1) \<and>
     decode_header big_endian_platform h1 = (r, h2) \<and> unat (get_message_length h2) = 2 \<and>
     create_message (register_all [byte_class] new_message_factory) (get_message_type h2) [5] =
       (Inr 1, [5, 7])"
proof -
  obtain rs h where 1: "run_header_ops little_endian_platform
      (describe (''ping'' @ [CHR 0x00]) (length ''ok'') 2) (new_message_header (replicate 32 9)) = (rs, h)"
    by (metis surj_pair)
  obtain w h1 where 2: "write_data 0 (read_data h) (new_message_header (replicate 32 8)) = (w, h1)"
    by (metis surj_pair)
  obtain r h2 where 3: "decode_header big_endian_platform h1 = (r, h2)" by (metis surj_pair)
  from typed_message_exchange [OF le.endian_conversion_axioms be.endian_conversion_axioms _ _ 1 2 3,
      of "[byte_class]" "[5]"] 1 2 3
  show ?thesis by (auto simp: byte_class_def register_creator_def)
qed

text \<open>C23: A message survives the exchange: when its class is the one registered last under its type,
  the type fits and has no NUL, the payload is shorter than 2^32 and the class itself can
  decode what it encodes into a default object, the receiver gets a new object equal to the one
  sent, and the header tells it exactly where the payload ends in what follows.\<close>

theorem message_survives_exchange:
  assumes "endian_conversion P" and "endian_conversion Q"
    and "length m1 = 32" and "length m2 = 32"
    and "find (\<lambda>T'. type_name T' = type_name T) (rev Ts) = Some T"
    and "type_name T \<noteq> []" and "length (type_name T) \<le> 25" and "CHR 0x00 \<notin> set (type_name T)"
    and "encode M obj = Inr payload" and "length payload < 2 ^ 32"
    and "construct T = Inr fresh" and "decode M payload fresh = (Inr (), obj)"
    and "run_header_ops P (describe (type_name T) (length payload) v) (new_message_header m1) = (rs, h)"
    and "write_data 0 (read_data h) (new_message_header m2) = (w, h1)"
    and "decode_header Q h1 = (r, h2)"
  shows "create_message (register_all Ts new_message_factory) (get_message_type h2) heap =
      (Inr (length heap), heap @ [fresh]) \<and>
    decode M (take (unat (get_message_length h2)) (payload @ rest)) fresh = (Inr (), obj)"
proof -
  from assms(7) have fits: "length (type_name T) < 26" by simp
  note sent = describe_frame [OF assms(1,3,6) fits, of "length payload" v]
  with assms(13,14) have
    "write_data 0 (frame (word_of_nat (length payload)) v (type_name T)) (new_message_header m2) = (w, h1)"
    by (auto simp: read_data_def)
  from receive_frame [OF assms(2,4) fits this] assms(15) have
    h2: "h2 = \<lparr>message_type = type_name T, message_length = word_of_nat (length payload),
      message_version = v, data = frame (word_of_nat (length payload)) v (type_name T)\<rparr>"
    using assms(8) by (auto simp: c_str_id)
  then have "unat (get_message_length h2) = length payload"
    using assms(10) by (simp add: getter_defs unat_of_nat)
  then show ?thesis
    using h2 assms(5,11,12)
    by (simp add: getter_defs create_message_def creators_register_all register_creator_def)
qed

definition number_message :: "nat message" where
  "number_message =
     \<lparr>encode = (\<lambda>n. Inr (replicate n CHR ''1'')), decode = (\<lambda>s n. (Inr (), length s))\<rparr>"

theorem message_survives_exchange_witness:
  "\<exists>rs h w h1 r h2.
     run_header_ops little_endian_platform (describe ''ping'' (length ''111'') 2)
       (new_message_header (replicate 32 9)) = (rs, h) \<and>
     write_data 0 (read_data h) (new_message_header (replicate 32 8)) = (w, h1) \<and>
     decode_header big_endian_platform h1 = (r, h2) \<and>
     create_message (register_all [byte_class] new_message_factory) (get_message_type h2) [] =
       (Inr 0, [7]) \<and>
     decode number_message (take (unat (get_message_length h2)) (''111'' @ ''xyz'')) 7 = (Inr (), 3)"
proof -
  obtain rs h where 1: "run_header_ops little_endian_platform
      (describe (type_name byte_class) (length ''111'') 2) (new_message_header (replicate 32 9)) = (rs, h)"
    by (metis surj_pair)
  obtain w h1 where 2: "write_data 0 (read_data h) (new_message_header (replicate 32 8)) = (w, h1)"
    by (metis surj_pair)
  obtain r h2 where 3: "decode_header big_endian_platform h1 = (r, h2)" by (metis surj_pair)
  have "encode number_message 3 = Inr ''111''"
    by (simp add: number_message_def eval_nat_numeral)
  from message_survives_exchange [OF le.endian_conversion_axioms be.endian_conversion_axioms _ _ _ _ _ _
      this _ _ _ 1 2 3, of "[byte_class]" 7 "[]" "''xyz''"] 1 2 3
  show ?thesis by (auto simp: byte_class_def number_message_def)
qed

end
