(* ===== verification/Session.thy ===== *)
theory Session
  imports Exceptions
begin

text \<open>
  A TCP session and its identifier: \<open>comm::session\<close>
  (\<open>libs/comm/include/comm/session.hpp\<close>) and \<open>comm::async_tcp_client\<close>
  (\<open>libs/comm/src/async_tcp_client.cpp\<close>).  Addresses are Boost.Asio's: a parameter \<open>A\<close> gives
  their text and their family.  The error signal of a session is in \<open>Session_Manager\<close>.
\<close>

section \<open>Endpoints and sessions\<close>

record 'a asio_address =
  address_text :: "'a \<Rightarrow> string"
  is_v6 :: "'a \<Rightarrow> bool"

record 'a endpoint =
  address :: 'a
  port :: "16 word"

text \<open>\<open>socket_.remote_endpoint(ec)\<close> gives an error or the peer's endpoint; that is all the
  operations here see of the socket.  A socket that is not connected gives an error.\<close>

type_synonym ('e, 'a) tcp_socket = "'e + 'a endpoint"

definition unknown_id :: string where
  "unknown_id = ''unknown''"

text \<open>\<open>find(c, pos)\<close> on a \<open>std::string\<close>, \<open>None\<close> for \<open>npos\<close>, and \<open>replace(pos, 1, t)\<close>.\<close>

definition find_from :: "char \<Rightarrow> nat \<Rightarrow> string \<Rightarrow> nat option" where
  "find_from c pos s =
     (let p = pos + find_pos c (drop pos s) in if p < length s then Some p else None)"

definition replace_1 :: "nat \<Rightarrow> string \<Rightarrow> string \<Rightarrow> string" where
  "replace_1 pos t s = take pos s @ t @ drop (Suc pos) s"

lemma find_from_SomeD:
  assumes "find_from c pos s = Some p"
  shows "pos \<le> p \<and> p < length s"
  using assms by (auto simp: find_from_def Let_def split: if_splits)

text \<open>The loop over the host text, from the position it has reached.\<close>

function escape_from :: "nat \<Rightarrow> string \<Rightarrow> string" where
  "escape_from pos s =
     (case find_from CHR ''%'' pos s of
        None \<Rightarrow> s
      | Some p \<Rightarrow> escape_from (p + 3) (replace_1 p ''%25'' s))"
  by pat_completeness auto
termination
  by (relation "measure (\<lambda>(pos, s). length s - pos)")
    (auto dest!: find_from_SomeD simp: replace_1_def)

declare escape_from.simps [simp del]

definition session_id :: "'a asio_address \<Rightarrow> ('e, 'a) tcp_socket \<Rightarrow> string" where
  "session_id A socket =
     (case socket of
        Inl ec \<Rightarrow> unknown_id
      | Inr remote_endpoint \<Rightarrow>
        let remote_address = address remote_endpoint;
            remote_host = address_text A remote_address;
            remote_host =
              (if is_v6 A remote_address then ''['' @ escape_from 0 remote_host @ '']''
               else remote_host)
        in remote_host @ '':'' @ decimal (unat (port remote_endpoint)))"

text \<open>An \<open>async_tcp_client\<close> is a session on a socket that has not been opened; \<open>bad_descriptor\<close>
  is the error its \<open>remote_endpoint\<close> gives.\<close>

definition async_tcp_client :: "'e \<Rightarrow> ('e, 'a) tcp_socket" where
  "async_tcp_client bad_descriptor = Inl bad_descriptor"

section \<open>The escaping loop\<close>

definition escape_char :: "char \<Rightarrow> string" where
  "escape_char c = (if c = CHR ''%'' then ''%25'' else [c])"

abbreviation escaped :: "string \<Rightarrow> string" where
  "escaped s \<equiv> concat (map escape_char s)"

lemma escaped_id: "CHR ''%'' \<notin> set s \<Longrightarrow> escaped s = s"
  by (induction s) (auto simp: escape_char_def)

lemma find_from_append:
  "find_from c (length pre) (pre @ s) =
     (if c \<in> set s then Some (length pre + length (takeWhile (\<lambda>y. y \<noteq> c) s)) else None)"
proof (cases "c \<in> set s")
  case True
  then have "find_pos c s \<noteq> length s" by simp
  then have "find_pos c s < length s" using find_pos_le [of c s] by linarith
  with True show ?thesis by (simp add: find_from_def Let_def find_pos_takeWhile)
next
  case False
  then have "find_pos c s = length s" by simp
  with False show ?thesis by (simp add: find_from_def Let_def del: find_pos_eq_length)
qed

lemma escape_from_append: "escape_from (length pre) (pre @ s) = pre @ escaped s"
proof (induction "length s" arbitrary: pre s rule: less_induct)
  case less
  show ?case
  proof (cases "CHR ''%'' \<in> set s")
    case False
    then show ?thesis by (simp add: escape_from.simps [of "length pre"] find_from_append escaped_id)
  next
    case True
    let ?a = "takeWhile (\<lambda>y. y \<noteq> CHR ''%'') s"
    obtain a b where "s = a @ CHR ''%'' # b" and "CHR ''%'' \<notin> set a"
      using split_list_first [OF True] by blast
    moreover from this have "?a = a"
      by (simp add: takeWhile_tail) (auto simp: takeWhile_eq_all_conv)
    ultimately have s: "s = ?a @ CHR ''%'' # b" by simp
    have "CHR ''%'' \<notin> set ?a" by (auto dest: set_takeWhileD)
    note a = escaped_id [OF this]
    have "escape_from (length pre) (pre @ s) =
        escape_from (length pre + length ?a + 3) (replace_1 (length pre + length ?a) ''%25'' (pre @ s))"
      using True by (simp add: escape_from.simps [of "length pre"] find_from_append)
    also have "replace_1 (length pre + length ?a) ''%25'' (pre @ s) = (pre @ ?a @ ''%25'') @ b"
      by (subst (2) s) (simp add: replace_1_def)
    also have "escape_from (length pre + length ?a + 3) \<dots> = (pre @ ?a @ ''%25'') @ escaped b"
    proof -
      have "length b < length s" by (subst s) simp
      from less [OF this, of "pre @ ?a @ ''%25''"] show ?thesis by (simp add: add.assoc numeral_3_eq_3)
    qed
    also have "\<dots> = pre @ escaped s"
      by (subst (2) s) (simp add: a escape_char_def)
    finally show ?thesis .
  qed
qed

lemma escape_from_0: "escape_from 0 s = escaped s"
  using escape_from_append [of "[]" s] by simp

lemma escaped_inject: "escaped s = escaped t \<longleftrightarrow> s = t"
proof (induction s arbitrary: t)
  case Nil
  show ?case by (cases t) (simp_all add: escape_char_def)
next
  case (Cons c s)
  then show ?case by (cases t) (auto simp: escape_char_def)
qed

lemma host_port_split:
  assumes "h @ '':'' @ decimal m = h' @ '':'' @ decimal n"
  shows "h = h' \<and> m = n"
proof -
  have no_colon: "CHR '':'' \<notin> set (decimal k)" for k
    using decimal_digits [of k] by (auto simp: digits_def)
  have "rev (decimal m) @ CHR '':'' # rev h = rev (decimal n) @ CHR '':'' # rev h'"
    using arg_cong [OF assms, of rev] by simp
  then have "rev (decimal m) = rev (decimal n) \<and> rev h = rev h'"
    using split_at_first [of "CHR '':''" "rev (decimal m)" "rev (decimal n)" "rev h" "rev h'"]
      no_colon [of m] no_colon [of n] by simp
  then show ?thesis by (simp add: decimal_inject)
qed

lemma session_id_known: "session_id A (Inr e) \<noteq> ''unknown''"
proof
  assume "session_id A (Inr e) = ''unknown''"
  then have "CHR '':'' \<in> set ''unknown''"
    by (metis (no_types, lifting) Un_iff list.set_intros(1) session_id_def set_append sum.case(2)
        append_Cons)
  then show False by simp
qed

section \<open>Properties\<close>

text \<open>The escaping loop of \<open>id()\<close> replaces every percent sign of the host text by the three
  characters \<open>%25\<close> and leaves every other character, whatever the text; it visits no inserted
  character twice.\<close>

theorem zone_escape_loop:
  "escape_from 0 s = concat (map (\<lambda>c. if c = CHR ''%'' then ''%25'' else [c]) s)"
  unfolding escape_from_0 escape_char_def ..

text \<open>The identifier on every branch: \<open>unknown\<close> exactly when the peer is not known,
  \<open>host:port\<close> for IPv4 and \<open>[host]:port\<close> with escaped zone for IPv6.  A new \<open>async_tcp_client\<close>
  is \<open>unknown\<close>.\<close>

theorem session_id_format:
  "(session_id A socket = ''unknown'' \<longleftrightarrow> (\<exists>ec. socket = Inl ec)) \<and>
   session_id A (async_tcp_client bad) = ''unknown'' \<and>
   session_id A (Inr \<lparr>address = a, port = p\<rparr>) =
     (if is_v6 A a
      then ''['' @ concat (map (\<lambda>c. if c = CHR ''%'' then ''%25'' else [c]) (address_text A a)) @ '']:''
      else address_text A a @ '':'') @ decimal (unat p)"
proof (intro conjI)
  show "session_id A socket = ''unknown'' \<longleftrightarrow> (\<exists>ec. socket = Inl ec)"
    using session_id_known [of A] by (cases socket) (auto simp: session_id_def unknown_id_def)
qed (simp_all add: session_id_def unknown_id_def async_tcp_client_def escape_from_0
    escape_char_def [abs_def])

text \<open>What Asio documents of an address text: it determines the address within its family, and an
  IPv4 text is in dotted decimal form.\<close>

definition address_texts_documented :: "'a asio_address \<Rightarrow> bool" where
  "address_texts_documented A \<longleftrightarrow>
     (\<forall>a b. is_v6 A a = is_v6 A b \<longrightarrow> address_text A a = address_text A b \<longrightarrow> a = b) \<and>
     (\<forall>a. \<not> is_v6 A a \<longrightarrow> (\<forall>c \<in> set (address_text A a). c \<in> set digits \<or> c = CHR ''.''))"

text \<open>C36: Two sessions with known peers have the same identifier only if their peers are the same
  endpoint, across address families, zones and ports; the escaping loses nothing.\<close>

theorem session_id_injective:
  assumes "address_texts_documented A" and "session_id A (Inr e) = session_id A (Inr e')"
  shows "e = e'"
proof -
  let ?host = "\<lambda>e. if is_v6 A (address e) then ''['' @ escaped (address_text A (address e)) @ '']''
    else address_text A (address e)"
  have "?host e @ '':'' @ decimal (unat (port e)) = ?host e' @ '':'' @ decimal (unat (port e'))"
    using assms(2) by (simp only: session_id_def escape_from_0 Let_def sum.case)
  then have host: "?host e = ?host e'" and port: "port e = port e'"
    using host_port_split by (blast, metis host_port_split word_unat_eq_iff)
  have v4: "\<not> is_v6 A a \<Longrightarrow> address_text A a \<noteq> ''['' @ s" for a s
    using assms(1) by (force simp: address_texts_documented_def digits_def)
  have "is_v6 A (address e) = is_v6 A (address e')"
    using host v4 [of "address e"] v4 [of "address e'"] by (auto split: if_splits) metis
  moreover from this have "address_text A (address e) = address_text A (address e')"
    using host by (auto simp: escaped_inject split: if_splits)
  ultimately have "address e = address e'"
    using assms(1) unfolding address_texts_documented_def by blast
  with port show ?thesis by simp
qed

text \<open>An example of the parameter: two IPv4 addresses and a link-local IPv6 address with zones.\<close>

datatype sample_address = Localhost | Neighbour | Link_local bool

definition sample_asio :: "sample_address asio_address" where
  "sample_asio =
     \<lparr>address_text = (\<lambda>a. case a of
          Localhost \<Rightarrow> ''127.0.0.1'' | Neighbour \<Rightarrow> ''10.0.0.2''
        | Link_local z \<Rightarrow> (if z then ''fe80::1%eth0'' else ''fe80::1%eth1'')),
      is_v6 = (\<lambda>a. case a of Link_local z \<Rightarrow> True | _ \<Rightarrow> False)\<rparr>"

lemma sample_asio_documented: "address_texts_documented sample_asio"
  unfolding address_texts_documented_def sample_asio_def
  by (auto simp: digits_def split: sample_address.splits if_splits)

theorem session_id_injective_witness:
  "session_id sample_asio (Inr \<lparr>address = Link_local True, port = 8080\<rparr> :: (nat, _) tcp_socket)
     \<noteq> session_id sample_asio (Inr \<lparr>address = Link_local False, port = 8080\<rparr>) \<and>
   session_id sample_asio (Inr \<lparr>address = Link_local True, port = 8080\<rparr> :: (nat, _) tcp_socket)
     = ''[fe80::1%25eth0]:8080''"
proof
  show "session_id sample_asio (Inr \<lparr>address = Link_local True, port = 8080\<rparr> :: (nat, _) tcp_socket)
     \<noteq> session_id sample_asio (Inr \<lparr>address = Link_local False, port = 8080\<rparr>)"
    using session_id_injective [OF sample_asio_documented,
        of "\<lparr>address = Link_local True, port = 8080\<rparr>" "\<lparr>address = Link_local False, port = 8080\<rparr>"]
    by auto
  show "session_id sample_asio (Inr \<lparr>address = Link_local True, port = 8080\<rparr> :: (nat, _) tcp_socket)
     = ''[fe80::1%25eth0]:8080''"
    by (simp add: session_id_def sample_asio_def escape_from_0 escape_char_def decimal.simps
        digits_def)
qed

end
