(* ===== verification/Session_Manager.thy ===== *)
theory Session_Manager
  imports Session
begin

text \<open>
  The registry of sessions, \<open>comm::session_manager\<close>
  (\<open>libs/comm/include/comm/session_manager.hpp\<close>), with the error signal of \<open>comm::session\<close>
  (\<open>session.hpp\<close>).  Session objects live on a heap, shared pointers are indices into it or
  null, and a moved-from pointer is null.  The life time of objects is not modelled: an object
  stays on the heap.
\<close>

section \<open>State\<close>

text \<open>The slots of an error signal in the order they were connected: the one \<open>add_session\<close>
  connects, and any a user connects, whose behaviour is a parameter \<open>U\<close>.\<close>

datatype slot = Erase_session | User_slot nat

record ('e, 'a) session =
  socket :: "('e, 'a) tcp_socket"
  slots :: "slot list"
  shared_owned :: bool

record ('e, 'a) world =
  heap :: "('e, 'a) session list"
  sessions :: "string \<rightharpoonup> nat"

type_synonym ('e, 'a) outcome = "(failure + unit) \<times> ('e, 'a) world"
type_synonym ('e, 'a) user_slots = "nat \<Rightarrow> nat \<Rightarrow> 'e \<Rightarrow> ('e, 'a) world \<Rightarrow> ('e, 'a) outcome"

definition deref :: "nat option \<Rightarrow> ('e, 'a) world \<Rightarrow> failure + nat \<times> ('e, 'a) session" where
  "deref p w =
     (case p of
        None \<Rightarrow> Inl (Fault Null_dereference)
      | Some i \<Rightarrow> if i < length (heap w) then Inr (i, heap w ! i)
                  else Inl (Fault Null_dereference))"

section \<open>Operations of a session\<close>

text \<open>The constructor, which is public: a session that is a local variable or a member is owned by no
  shared pointer.  \<open>std::make_shared<session>(socket)\<close> constructs one that is.\<close>

definition construct_session :: "('e, 'a) tcp_socket \<Rightarrow> ('e, 'a) session" where
  "construct_session sk = \<lparr>socket = sk, slots = [], shared_owned = False\<rparr>"

lemma construct_session_fields [simp]:
  "socket (construct_session sk) = sk" "slots (construct_session sk) = []"
  "\<not> shared_owned (construct_session sk)"
  by (simp_all add: construct_session_def)

definition make_session ::
    "('e, 'a) tcp_socket \<Rightarrow> ('e, 'a) world \<Rightarrow> nat option \<times> ('e, 'a) world" where
  "make_session sk w =
     (Some (length (heap w)),
      w\<lparr>heap := heap w @ [(construct_session sk)\<lparr>shared_owned := True\<rparr>]\<rparr>)"

definition on_error :: "nat option \<Rightarrow> slot \<Rightarrow> ('e, 'a) world \<Rightarrow> ('e, 'a) outcome" where
  "on_error p sl w =
     (case deref p w of
        Inl f \<Rightarrow> (Inl f, w)
      | Inr (i, s) \<Rightarrow> (Inr (), w\<lparr>heap := (heap w)[i := s\<lparr>slots := slots s @ [sl]\<rparr>]\<rparr>))"

section \<open>Operations of the manager\<close>

text \<open>
  \<open>sessions_.emplace(new_session->id(), std::move(new_session))\<close> moves the pointer into the new
  element.  When the key is present, the standard lets the element be built before the lookup,
  so whether the pointer has been moved from then depends on the library: \<open>moves_dup\<close>.
\<close>

definition add_session ::
    "'a asio_address \<Rightarrow> bool \<Rightarrow> nat option \<Rightarrow> ('e, 'a) world \<Rightarrow> ('e, 'a) outcome" where
  "add_session A moves_dup new_session w =
     (case deref new_session w of
        Inl f \<Rightarrow> (Inl f, w)
      | Inr (i, s) \<Rightarrow>
        let k = session_id A (socket s);
            inserted = (sessions w k = None);
            w1 = (if inserted then w\<lparr>sessions := (sessions w)(k \<mapsto> i)\<rparr> else w);
            new_session = (if inserted \<or> moves_dup then None else new_session)
        in on_error new_session Erase_session w1)"

definition remove_session ::
    "'a asio_address \<Rightarrow> nat option \<Rightarrow> ('e, 'a) world \<Rightarrow> ('e, 'a) outcome" where
  "remove_session A p w =
     (case deref p w of
        Inl f \<Rightarrow> (Inl f, w)
      | Inr (i, s) \<Rightarrow>
        (Inr (), w\<lparr>sessions := (sessions w)(session_id A (socket s) := None)\<rparr>))"

text \<open>Emitting a signal calls the slots connected before it, in order; an exception ends the
  emission.\<close>

fun run_slots ::
    "'a asio_address \<Rightarrow> ('e, 'a) user_slots \<Rightarrow> nat \<Rightarrow> 'e \<Rightarrow> slot list \<Rightarrow> ('e, 'a) world \<Rightarrow>
     ('e, 'a) outcome" where
  "run_slots A U i ec [] w = (Inr (), w)"
| "run_slots A U i ec (sl # sls) w =
     (case (case sl of Erase_session \<Rightarrow> remove_session A (Some i) w | User_slot n \<Rightarrow> U n i ec w) of
        (Inl f, w1) \<Rightarrow> (Inl f, w1)
      | (Inr _, w1) \<Rightarrow> run_slots A U i ec sls w1)"

text \<open>\<open>shared_from_this()\<close> throws when no shared pointer owns the object.\<close>

definition emit_error ::
    "'a asio_address \<Rightarrow> ('e, 'a) user_slots \<Rightarrow> nat option \<Rightarrow> 'e \<Rightarrow> ('e, 'a) world \<Rightarrow>
     ('e, 'a) outcome" where
  "emit_error A U p ec w =
     (case deref p w of
        Inl f \<Rightarrow> (Inl f, w)
      | Inr (i, s) \<Rightarrow>
        if shared_owned s then run_slots A U i ec (slots s) w
        else (Inl (Raised (Lib (Std_exn Bad_weak_ptr False ''bad_weak_ptr''))), w))"

section \<open>Sequences of operations\<close>

text \<open>What a program does with sessions and the manager: besides the operations, \<open>Local sk\<close> is a
  session that no shared pointer owns, and \<open>Peer i sk\<close> is a change of the connection of session
  \<open>i\<close>.  A run ends at the first failure.\<close>

datatype ('e, 'a) manager_op =
    Make "('e, 'a) tcp_socket"
  | Local "('e, 'a) tcp_socket"
  | Add "nat option"
  | Remove "nat option"
  | Connect "nat option" slot
  | Emit "nat option" 'e
  | Peer nat "('e, 'a) tcp_socket"

fun run_manager_op ::
    "'a asio_address \<Rightarrow> bool \<Rightarrow> ('e, 'a) user_slots \<Rightarrow> ('e, 'a) manager_op \<Rightarrow> ('e, 'a) world \<Rightarrow>
     ('e, 'a) outcome" where
  "run_manager_op A md U (Make sk) w = (Inr (), snd (make_session sk w))"
| "run_manager_op A md U (Local sk) w = (Inr (), w\<lparr>heap := heap w @ [construct_session sk]\<rparr>)"
| "run_manager_op A md U (Add p) w = add_session A md p w"
| "run_manager_op A md U (Remove p) w = remove_session A p w"
| "run_manager_op A md U (Connect p sl) w = on_error p sl w"
| "run_manager_op A md U (Emit p ec) w = emit_error A U p ec w"
| "run_manager_op A md U (Peer i sk) w =
     (Inr (), w\<lparr>heap := (heap w)[i := (heap w ! i)\<lparr>socket := sk\<rparr>]\<rparr>)"

fun run_manager_ops ::
    "'a asio_address \<Rightarrow> bool \<Rightarrow> ('e, 'a) user_slots \<Rightarrow> ('e, 'a) manager_op list \<Rightarrow>
     ('e, 'a) world \<Rightarrow> ('e, 'a) outcome" where
  "run_manager_ops A md U [] w = (Inr (), w)"
| "run_manager_ops A md U (x # xs) w =
     (case run_manager_op A md U x w of
        (Inl f, w1) \<Rightarrow> (Inl f, w1)
      | (Inr _, w1) \<Rightarrow> run_manager_ops A md U xs w1)"

text \<open>\<open>instance()\<close> constructs the manager at its first use, without sessions.\<close>

definition session_manager_instance :: "(string \<rightharpoonup> nat) option \<Rightarrow> (string \<rightharpoonup> nat)" where
  "session_manager_instance slot = get_mutable_instance Map.empty slot"

definition new_world :: "('e, 'a) world" where
  "new_world = \<lparr>heap = [], sessions = session_manager_instance None\<rparr>"

lemma first_session_manager [simp]: "session_manager_instance None = Map.empty"
  by (simp add: session_manager_instance_def)

section \<open>Helper facts\<close>

lemma on_error_None [simp]: "on_error None sl w = (Inl (Fault Null_dereference), w)"
  by (simp add: on_error_def deref_def)

lemma on_error_sessions: "on_error p sl w = (r, w') \<Longrightarrow> sessions w' = sessions w"
  by (auto simp: on_error_def split: sum.splits prod.splits)

lemma remove_session_sessions: "remove_session A p w = (r, w') \<Longrightarrow> sessions w' \<subseteq>\<^sub>m sessions w"
  by (auto simp: remove_session_def map_le_def split: sum.splits prod.splits if_splits)

lemma add_to_empty:
  assumes "sessions w = Map.empty"
  shows "fst (add_session A md p w) = Inl (Fault Null_dereference)"
  using assms by (auto simp: add_session_def deref_def Let_def split: option.splits sum.splits)

definition leaves_sessions :: "('e, 'a) user_slots \<Rightarrow> bool" where
  "leaves_sessions U \<longleftrightarrow> (\<forall>n i ec w. sessions (snd (U n i ec w)) = sessions w)"

lemma run_slots_sessions:
  assumes "leaves_sessions U"
  shows "run_slots A U i ec sls w = (r, w') \<Longrightarrow> sessions w' \<subseteq>\<^sub>m sessions w"
proof (induction sls arbitrary: w)
  case (Cons sl sls)
  let ?r = "case sl of Erase_session \<Rightarrow> remove_session A (Some i) w | User_slot n \<Rightarrow> U n i ec w"
  have first: "sessions (snd ?r) \<subseteq>\<^sub>m sessions w"
  proof (cases sl)
    case Erase_session
    then show ?thesis
      using remove_session_sessions [of A "Some i" w "fst ?r" "snd ?r"] by simp
  next
    case (User_slot n)
    then show ?thesis using assms by (simp add: leaves_sessions_def)
  qed
  show ?case
  proof (cases ?r)
    case (Pair r1 w1)
    then have "sessions w1 \<subseteq>\<^sub>m sessions w" using first by simp
    moreover have "sessions w' \<subseteq>\<^sub>m sessions w1"
      using Cons.prems Pair Cons.IH by (cases r1) auto
    ultimately show ?thesis by (rule map_le_trans [rotated])
  qed
qed simp

lemma emit_error_sessions:
  assumes "leaves_sessions U" and "emit_error A U p ec w = (r, w')"
  shows "sessions w' \<subseteq>\<^sub>m sessions w"
  using assms(2)
  by (auto simp: emit_error_def split: sum.splits prod.splits if_splits
      dest: run_slots_sessions [OF assms(1)])

lemma run_manager_op_empty:
  assumes "leaves_sessions U" and "sessions w = Map.empty"
    and "run_manager_op A md U x w = (Inr (), w')"
  shows "sessions w' = Map.empty \<and> (\<forall>p. x \<noteq> Add p)"
proof (cases x)
  case (Add p)
  with assms(3) add_to_empty [OF assms(2), of A md p] show ?thesis by simp
next
  case (Remove p)
  then have "sessions w' \<subseteq>\<^sub>m Map.empty"
    using assms(2,3) remove_session_sessions [of A p w "Inr ()" w'] by simp
  with Remove show ?thesis by simp
next
  case (Emit p ec)
  then have "sessions w' \<subseteq>\<^sub>m Map.empty"
    using assms(2,3) emit_error_sessions [OF assms(1), of A p ec w "Inr ()" w'] by simp
  with Emit show ?thesis by simp
qed (use assms(2,3) in \<open>auto simp: make_session_def dest: on_error_sessions\<close>)

section \<open>Properties\<close>

text \<open>C16: The manager never holds a session: in any sequence of operations from the empty manager,
  every \<open>add_session\<close> dereferences a null pointer (it has moved \<open>new_session\<close> into the map before
  it uses it), so a run that goes through contains no \<open>add_session\<close> and ends with no session
  registered; the slots users connect themselves are assumed not to touch the map.\<close>

theorem manager_never_holds_a_session:
  assumes "leaves_sessions U" and "run_manager_ops A md U xs new_world = (Inr (), w')"
  shows "sessions w' = Map.empty \<and> (\<forall>p. Add p \<notin> set xs)"
proof -
  have "sessions w' = Map.empty \<and> (\<forall>p. Add p \<notin> set xs)"
    if "run_manager_ops A md U xs w = (Inr (), w')" and "sessions w = Map.empty" for w
    using that
  proof (induction xs arbitrary: w)
    case (Cons x xs)
    from Cons.prems(1) obtain w1 where x: "run_manager_op A md U x w = (Inr (), w1)"
      and rest: "run_manager_ops A md U xs w1 = (Inr (), w')"
      by (auto split: prod.splits sum.splits)
    from run_manager_op_empty [OF assms(1) Cons.prems(2) x] Cons.IH [OF rest] show ?case by auto
  qed simp
  from this [OF assms(2)] show ?thesis by (simp add: new_world_def)
qed

theorem manager_never_holds_a_session_witness:
  "\<exists>w'. run_manager_ops sample_asio True (\<lambda>n i ec w. (Inr (), w))
      [Make (Inr \<lparr>address = Localhost, port = 80\<rparr>), Connect (Some 0) (User_slot 1),
       Emit (Some 0) (5 :: nat), Remove (Some 0)] new_world = (Inr (), w') \<and>
    sessions w' = Map.empty"
proof -
  let ?U = "\<lambda>n i ec w. (Inr (), w)" and ?xs = "[Make (Inr \<lparr>address = Localhost, port = 80\<rparr>),
    Connect (Some 0) (User_slot 1), Emit (Some 0) (5 :: nat), Remove (Some 0)]"
  obtain w' where run: "run_manager_ops sample_asio True ?U ?xs new_world = (Inr (), w')"
    by (simp add: make_session_def on_error_def emit_error_def remove_session_def deref_def
        new_world_def)
  have "leaves_sessions ?U" by (simp add: leaves_sessions_def)
  from manager_never_holds_a_session [OF this run] run show ?thesis by blast
qed

text \<open>C32: Removal on error goes by the identifier the session has then: while it is still connected
  to the peer it was registered with, its own entry and nothing else is erased; once the
  connection is lost the entry stays for good, and an entry under \<open>unknown\<close>, whoever it belongs
  to, is erased instead.\<close>

theorem error_removal_by_current_id:
  fixes w :: "('e, 'a) world" and known :: "('e, 'a) tcp_socket"
  assumes "i < length (heap w)" and "shared_owned (heap w ! i)" and "slots (heap w ! i) = [Erase_session]"
    and "known = Inr e" and "sessions w (session_id A known) = Some i"
    and "emit_error A U (Some i) ec w = (r, w')"
  shows "r = Inr () \<and> heap w' = heap w \<and>
    (socket (heap w ! i) = known \<longrightarrow>
       sessions w' = (sessions w)(session_id A known := None)) \<and>
    (\<forall>lost. socket (heap w ! i) = Inl lost \<longrightarrow>
       sessions w' = (sessions w)(''unknown'' := None) \<and>
       sessions w' (session_id A known) = Some i)"
proof -
  have "session_id A known \<noteq> ''unknown''"
    using session_id_known [of A e] assms(4) by simp
  moreover have "r = Inr ()"
    and "w' = w\<lparr>sessions := (sessions w)(session_id A (socket (heap w ! i)) := None)\<rparr>"
    using assms by (simp_all add: emit_error_def remove_session_def deref_def)
  ultimately show ?thesis
    using assms(5) by (simp add: session_id_def [of A "Inl _"] unknown_id_def)
qed

theorem error_removal_by_current_id_witness:
  "\<exists>w'. emit_error sample_asio (\<lambda>n i ec w. (Inr (), w)) (Some 0) (5 :: nat)
      \<lparr>heap = [\<lparr>socket = Inl 7, slots = [Erase_session], shared_owned = True\<rparr>],
       sessions = [session_id sample_asio (Inr \<lparr>address = Localhost, port = 80\<rparr> :: (nat, _) tcp_socket) \<mapsto> 0]\<rparr>
      = (Inr (), w') \<and>
     sessions w' (session_id sample_asio (Inr \<lparr>address = Localhost, port = 80\<rparr> :: (nat, _) tcp_socket)) = Some 0"
proof -
  let ?k = "session_id sample_asio (Inr \<lparr>address = Localhost, port = 80\<rparr> :: (nat, _) tcp_socket)"
  let ?w = "\<lparr>heap = [\<lparr>socket = Inl (7 :: nat), slots = [Erase_session], shared_owned = True\<rparr>],
    sessions = [?k \<mapsto> 0]\<rparr>"
  obtain r w' where run: "emit_error sample_asio (\<lambda>n i ec w. (Inr (), w)) (Some 0) (5 :: nat) ?w = (r, w')"
    by (metis surj_pair)
  from error_removal_by_current_id [OF _ _ _ refl _ run, of "\<lparr>address = Localhost, port = 80\<rparr>"] run
  show ?thesis using session_id_known by simp
qed

text \<open>With a library whose \<open>emplace\<close> leaves the pointer alone when the key is present, a second
  session with the identifier of a registered one is not stored, yet \<open>add_session\<close> connects the
  erasing slot to it; so an error of the session that was never stored takes the entry of the
  other one out of the map.\<close>

theorem rejected_session_erases_the_stored_one:
  assumes "i < length (heap w)" and "j < length (heap w)" and "i \<noteq> j"
    and "socket (heap w ! j) = socket (heap w ! i)"
    and "sessions w (session_id A (socket (heap w ! i))) = Some i"
    and "shared_owned (heap w ! j)" and "slots (heap w ! j) = []"
  shows "\<exists>w1 w2. add_session A False (Some j) w = (Inr (), w1) \<and> sessions w1 = sessions w \<and>
    emit_error A U (Some j) ec w1 = (Inr (), w2) \<and>
    sessions w2 (session_id A (socket (heap w ! i))) = None"
  using assms by (simp add: add_session_def emit_error_def on_error_def remove_session_def deref_def)

theorem rejected_session_erases_the_stored_one_witness:
  "\<exists>w1 w2. add_session sample_asio False (Some 1)
      \<lparr>heap = [\<lparr>socket = Inl (7 :: nat), slots = [], shared_owned = True\<rparr>,
               \<lparr>socket = Inl 7, slots = [], shared_owned = True\<rparr>],
       sessions = [''unknown'' \<mapsto> 0]\<rparr> = (Inr (), w1) \<and>
     emit_error sample_asio (\<lambda>n i ec w. (Inr (), w)) (Some 1) 3 w1 = (Inr (), w2) \<and>
     sessions w2 ''unknown'' = None"
proof -
  let ?w = "\<lparr>heap = [\<lparr>socket = Inl (7 :: nat), slots = [], shared_owned = True\<rparr>,
      \<lparr>socket = Inl 7, slots = [], shared_owned = True\<rparr>], sessions = [''unknown'' \<mapsto> 0]\<rparr>"
  have id: "session_id sample_asio (socket (heap ?w ! 0)) = ''unknown''"
    by (simp add: session_id_def unknown_id_def)
  from rejected_session_erases_the_stored_one [of 0 ?w 1 sample_asio "\<lambda>n i ec w. (Inr (), w)" 3] id
  show ?thesis by auto
qed

end
