(* ===== verification/Tcp_Server.thy ===== *)
theory Tcp_Server
  imports Session_Manager
begin

text \<open>
  The accepting coroutine of \<open>comm::async_tcp_server\<close> (\<open>libs/comm/src/async_tcp_server.cpp\<close>).
  Name resolution, opening the acceptor and the results of the successive \<open>async_accept\<close> calls
  are Asio's: parameters of the model, the accept results a list in the order they complete.
  A cancellation by \<open>cancel()\<close> shows as a result \<open>operation_aborted\<close>.
\<close>

section \<open>The coroutine\<close>

text \<open>How the coroutine stands after the given results: finished, waiting for the next one, or
  ended by a failure.\<close>

datatype progress = Finished | Awaiting | Failed failure

record ('e, 'a) network =
  async_resolve :: "string \<Rightarrow> string \<Rightarrow> exn + 'a endpoint list"
  open_acceptor :: "'a endpoint \<Rightarrow> exn + unit"
  operation_aborted :: 'e

fun accept_loop ::
    "'a asio_address \<Rightarrow> bool \<Rightarrow> 'e \<Rightarrow> ('e + ('e, 'a) tcp_socket) list \<Rightarrow> ('e, 'a) world \<Rightarrow>
     progress \<times> ('e, 'a) world" where
  "accept_loop A md aborted [] w = (Awaiting, w)"
| "accept_loop A md aborted (Inl ec # rs) w =
     (if ec = aborted then (Finished, w) else accept_loop A md aborted rs w)"
| "accept_loop A md aborted (Inr sk # rs) w =
     (let (new_session, w1) = make_session sk w
      in case add_session A md new_session w1 of
           (Inl f, w2) \<Rightarrow> (Failed f, w2)
         | (Inr _, w2) \<Rightarrow> accept_loop A md aborted rs w2)"

definition start_accepting ::
    "'a asio_address \<Rightarrow> bool \<Rightarrow> ('e, 'a) network \<Rightarrow> string \<Rightarrow>
     ('e + ('e, 'a) tcp_socket) list \<Rightarrow> ('e, 'a) world \<Rightarrow> progress \<times> ('e, 'a) world" where
  "start_accepting A md N service results w =
     (if service = [] then (Finished, w)
      else case async_resolve N ''localhost'' service of
        Inl e \<Rightarrow> (Failed (Raised e), w)
      | Inr [] \<Rightarrow> (Failed (Fault Empty_range_dereference), w)
      | Inr (endpoint # _) \<Rightarrow>
          (case open_acceptor N endpoint of
             Inl e \<Rightarrow> (Failed (Raised e), w)
           | Inr _ \<Rightarrow> accept_loop A md (operation_aborted N) results w))"

section \<open>Helper facts\<close>

abbreviation accepted :: "'e \<Rightarrow> ('e + ('e, 'a) tcp_socket) list \<Rightarrow> ('e + ('e, 'a) tcp_socket) list" where
  "accepted aborted rs \<equiv> takeWhile (\<lambda>r. r \<noteq> Inl aborted) rs"

lemma add_made_session:
  assumes "sessions w = Map.empty"
  shows "\<exists>w2. add_session A md (Some (length (heap w))) (snd (make_session sk w)) =
      (Inl (Fault Null_dereference), w2) \<and>
    sessions w2 = [session_id A sk \<mapsto> length (heap w)]"
  using assms by (simp add: add_session_def make_session_def deref_def)

lemma accept_loop_empty:
  assumes "sessions w = Map.empty"
  shows "accept_loop A md aborted rs w = (p, w') \<Longrightarrow>
    (if \<exists>sk. Inr sk \<in> set (accepted aborted rs) then
       p = Failed (Fault Null_dereference) \<and>
       (\<exists>sk. find (\<lambda>r. \<not> isl r) rs = Some (Inr sk) \<and> sessions w' = [session_id A sk \<mapsto> length (heap w)])
     else w' = w \<and> p = (if Inl aborted \<in> set rs then Finished else Awaiting))"
proof (induction rs)
  case (Cons r rs)
  show ?case
  proof (cases r)
    case (Inl ec)
    with Cons show ?thesis by (cases "ec = aborted") (auto split: if_splits simp del: fun_upd_apply)
  next
    case (Inr sk)
    moreover obtain w2 where "add_session A md (Some (length (heap w))) (snd (make_session sk w)) =
        (Inl (Fault Null_dereference), w2)"
      and "sessions w2 = [session_id A sk \<mapsto> length (heap w)]"
      using add_made_session [OF assms] by blast
    ultimately show ?thesis
      using Cons.prems by (auto simp: make_session_def)
  qed
qed simp

section \<open>Properties\<close>

text \<open>C19: The server never gets past its first connection: from the empty manager, once the
  service resolves and the acceptor opens, failed accepts are ignored, an
  \<open>operation_aborted\<close> before any connection ends the loop and changes nothing, and the first
  accepted connection ends in a null dereference with its session left in the map.\<close>

theorem first_connection_faults:
  assumes "sessions w = Map.empty" and "service \<noteq> []"
    and "async_resolve N ''localhost'' service = Inr (endpoint # rest)"
    and "open_acceptor N endpoint = Inr ()"
    and "start_accepting A md N service results w = (p, w')"
  shows "if \<exists>sk. Inr sk \<in> set (takeWhile (\<lambda>r. r \<noteq> Inl (operation_aborted N)) results) then
      p = Failed (Fault Null_dereference) \<and>
      (\<exists>sk. find (\<lambda>r. \<not> isl r) results = Some (Inr sk) \<and> sessions w' = [session_id A sk \<mapsto> length (heap w)])
    else w' = w \<and> p = (if Inl (operation_aborted N) \<in> set results then Finished else Awaiting)"
  by (rule accept_loop_empty [OF assms(1)]) (use assms(2-5) in \<open>simp add: start_accepting_def\<close>)

definition sample_network :: "(nat, sample_address) network" where
  "sample_network =
     \<lparr>async_resolve = (\<lambda>host service. Inr [\<lparr>address = Localhost, port = 80\<rparr>]),
      open_acceptor = (\<lambda>_. Inr ()), operation_aborted = 125\<rparr>"

theorem first_connection_faults_witness:
  "fst (start_accepting sample_asio True sample_network ''http''
     [Inl 24, Inr (Inr \<lparr>address = Neighbour, port = 4000\<rparr>), Inl 125] new_world) =
     Failed (Fault Null_dereference) \<and>
   start_accepting sample_asio True sample_network ''http'' [Inl 24, Inl 125] new_world =
     (Finished, new_world)"
proof
  obtain p w where run: "start_accepting sample_asio True sample_network ''http''
     [Inl 24, Inr (Inr \<lparr>address = Neighbour, port = 4000\<rparr>), Inl 125] new_world = (p, w)"
    by (metis surj_pair)
  from first_connection_faults [OF _ _ _ _ run, of "\<lparr>address = Localhost, port = 80\<rparr>" "[]"] run
  show "fst (start_accepting sample_asio True sample_network ''http''
     [Inl 24, Inr (Inr \<lparr>address = Neighbour, port = 4000\<rparr>), Inl 125] new_world) =
     Failed (Fault Null_dereference)"
    by (simp add: sample_network_def new_world_def)
next
  show "start_accepting sample_asio True sample_network ''http'' [Inl 24, Inl 125] new_world =
     (Finished, new_world)"
    by (simp add: start_accepting_def sample_network_def)
qed

end
