(* ===== verification/Server_Cancellation.thy ===== *)
theory Server_Cancellation
  imports Tcp_Server
begin

text \<open>
  \<open>comm::async_tcp_server\<close> with its cancellation signal
  (\<open>libs/comm/include/comm/async_tcp_server.hpp\<close>, \<open>libs/comm/src/async_tcp_server.cpp\<close>):
  \<open>start_accepting\<close> as a coroutine that is resumed step by step, \<open>slot()\<close> and \<open>cancel()\<close>.  What
  Asio does is taken from its documentation: a coroutine spawned with the bound slot installs the
  signal's handler; emitting \<open>terminal\<close> marks the coroutine cancelled and cancels the operation it
  waits for; a cancelled coroutine throws \<open>operation_aborted\<close> at its next \<open>co_await\<close> of an
  operation.  Whether the resolver supports cancellation is a parameter.  The signal is emitted
  on the executor of the coroutine, as Asio requires, so only while the coroutine is suspended.
\<close>

section \<open>State\<close>

text \<open>
  The points at which the coroutine is suspended: spawned and not yet run, waiting for the
  resolver, the resolver's result queued, waiting for a connection, the accept result queued,
  and ended.
\<close>

datatype ('e, 'a) coroutine =
    Spawned string
  | Resolving string
  | Resolved "exn + 'a endpoint list"
  | Accepting
  | Accepted "'e + ('e, 'a) tcp_socket"
  | Ended progress

record ('e, 'a) server =
  cancel_handler :: bool
  cancelled :: bool
  coroutine :: "('e, 'a) coroutine"
  registry :: "('e, 'a) world"

record ('e, 'a) cancel_network = "('e, 'a) network" +
  resolver_cancellable :: bool
  aborted_error :: exn

text \<open>A fresh server whose \<open>start_accepting(service)\<close> has been spawned, with \<open>slot()\<close> bound or
  not.\<close>

definition spawn_accepting :: "bool \<Rightarrow> string \<Rightarrow> ('e, 'a) world \<Rightarrow> ('e, 'a) server" where
  "spawn_accepting bind_slot service w =
     \<lparr>cancel_handler = bind_slot, cancelled = False, coroutine = Spawned service, registry = w\<rparr>"

section \<open>Operations\<close>

definition cancel :: "('e, 'a) cancel_network \<Rightarrow> ('e, 'a) server \<Rightarrow> ('e, 'a) server" where
  "cancel N s =
     (if cancel_handler s then
        (case coroutine s of
           Ended p \<Rightarrow> s
         | Accepting \<Rightarrow> s\<lparr>cancelled := True, coroutine := Accepted (Inl (operation_aborted N))\<rparr>
         | Resolving service \<Rightarrow>
             s\<lparr>cancelled := True,
               coroutine := (if resolver_cancellable N then Resolved (Inl (aborted_error N))
                             else Resolving service)\<rparr>
         | _ \<Rightarrow> s\<lparr>cancelled := True\<rparr>)
      else s)"

text \<open>\<open>co_await acceptor.async_accept(...)\<close>.\<close>

definition await_accept :: "('e, 'a) cancel_network \<Rightarrow> ('e, 'a) server \<Rightarrow> ('e, 'a) server" where
  "await_accept N s =
     s\<lparr>coroutine := (if cancelled s then Ended (Failed (Raised (aborted_error N))) else Accepting)\<rparr>"

text \<open>The code from one suspension to the next.  A coroutine cancelled before its first run does not
  enter its body: the \<open>co_await\<close> by which \<open>co_spawn\<close> starts it throws.\<close>

fun resume ::
    "'a asio_address \<Rightarrow> bool \<Rightarrow> ('e, 'a) cancel_network \<Rightarrow> ('e, 'a) coroutine \<Rightarrow> ('e, 'a) server \<Rightarrow>
     ('e, 'a) server" where
  "resume A md N (Spawned service) s =
     (if cancelled s then s\<lparr>coroutine := Ended (Failed (Raised (aborted_error N)))\<rparr>
      else if service = [] then s\<lparr>coroutine := Ended Finished\<rparr>
      else s\<lparr>coroutine := Resolving service\<rparr>)"
| "resume A md N (Resolved (Inl e)) s = s\<lparr>coroutine := Ended (Failed (Raised e))\<rparr>"
| "resume A md N (Resolved (Inr [])) s = s\<lparr>coroutine := Ended (Failed (Fault Empty_range_dereference))\<rparr>"
| "resume A md N (Resolved (Inr (endpoint # _))) s =
     (case open_acceptor N endpoint of
        Inl e \<Rightarrow> s\<lparr>coroutine := Ended (Failed (Raised e))\<rparr>
      | Inr _ \<Rightarrow> await_accept N s)"
| "resume A md N (Accepted (Inl ec)) s =
     (if ec = operation_aborted N then s\<lparr>coroutine := Ended Finished\<rparr> else await_accept N s)"
| "resume A md N (Accepted (Inr sk)) s =
     (let (new_session, w1) = make_session sk (registry s)
      in case add_session A md new_session w1 of
           (Inl f, w2) \<Rightarrow> s\<lparr>registry := w2, coroutine := Ended (Failed f)\<rparr>
         | (Inr _, w2) \<Rightarrow> await_accept N (s\<lparr>registry := w2\<rparr>))"
| "resume A md N _ s = s"

section \<open>Steps\<close>

datatype ('e, 'a) server_label =
    Resume
  | Resolve_done
  | Accept_done "'e + ('e, 'a) tcp_socket"
  | Cancel

fun runnable :: "('e, 'a) coroutine \<Rightarrow> bool" where
  "runnable (Spawned _) = True"
| "runnable (Resolved _) = True"
| "runnable (Accepted _) = True"
| "runnable _ = False"

inductive server_step ::
    "'a asio_address \<Rightarrow> bool \<Rightarrow> ('e, 'a) cancel_network \<Rightarrow> ('e, 'a) server_label \<Rightarrow> ('e, 'a) server \<Rightarrow>
     ('e, 'a) server \<Rightarrow> bool" for A md N where
  resumes: "runnable (coroutine s) \<Longrightarrow> server_step A md N Resume s (resume A md N (coroutine s) s)"
| resolves: "coroutine s = Resolving service \<Longrightarrow>
    server_step A md N Resolve_done s
      (s\<lparr>coroutine := Resolved (async_resolve N ''localhost'' service)\<rparr>)"
| accepts: "coroutine s = Accepting \<Longrightarrow>
    server_step A md N (Accept_done r) s (s\<lparr>coroutine := Accepted r\<rparr>)"
| cancels: "server_step A md N Cancel s (cancel N s)"

inductive_cases server_step_resume [elim!]: "server_step A md N Resume s s'"
inductive_cases server_step_resolve [elim!]: "server_step A md N Resolve_done s s'"
inductive_cases server_step_accept [elim!]: "server_step A md N (Accept_done r) s s'"
inductive_cases server_step_cancel [elim!]: "server_step A md N Cancel s s'"

inductive server_run ::
    "'a asio_address \<Rightarrow> bool \<Rightarrow> ('e, 'a) cancel_network \<Rightarrow> ('e, 'a) server_label list \<Rightarrow>
     ('e, 'a) server \<Rightarrow> ('e, 'a) server \<Rightarrow> bool" for A md N where
  run_nil: "server_run A md N [] s s"
| run_snoc: "server_run A md N ls s s1 \<Longrightarrow> server_step A md N l s1 s2 \<Longrightarrow> server_run A md N (ls @ [l]) s s2"

lemma server_run_snoc:
  "server_run A md N (ls @ [l]) s s2 \<longleftrightarrow>
    (\<exists>s1. server_run A md N ls s s1 \<and> server_step A md N l s1 s2)"
  by (subst server_run.simps) auto

lemma server_step_deterministic:
  "server_step A md N l s s1 \<Longrightarrow> server_step A md N l s s2 \<Longrightarrow> s1 = s2"
  by (cases l) auto

section \<open>Simulation by the list model\<close>

text \<open>The accept results of a run, in order; and how a state of the machine after them corresponds
  to \<open>start_accepting\<close> of \<open>Tcp_Server\<close> on that list.\<close>

fun results_of :: "('e, 'a) server_label list \<Rightarrow> ('e + ('e, 'a) tcp_socket) list" where
  "results_of [] = []"
| "results_of (Accept_done r # ls) = r # results_of ls"
| "results_of (_ # ls) = results_of ls"

lemma results_of_snoc [simp]:
  "results_of (ls @ [l]) = results_of ls @ (case l of Accept_done r \<Rightarrow> [r] | _ \<Rightarrow> [])"
  by (induction ls rule: results_of.induct) (cases l, auto)

lemma accept_loop_snoc:
  "accept_loop A md ab (rs @ [r]) w =
    (case accept_loop A md ab rs w of
       (Awaiting, w1) \<Rightarrow> accept_loop A md ab [r] w1
     | (p, w1) \<Rightarrow> (p, w1))"
  by (induction A md ab rs w rule: accept_loop.induct)
    (auto split: prod.splits sum.splits progress.splits)

abbreviation list_model ::
    "'a asio_address \<Rightarrow> bool \<Rightarrow> ('e, 'a) cancel_network \<Rightarrow> string \<Rightarrow>
     ('e + ('e, 'a) tcp_socket) list \<Rightarrow> ('e, 'a) world \<Rightarrow> progress \<times> ('e, 'a) world" where
  "list_model A md N \<equiv> start_accepting A md (network.truncate N)"

fun corresponds ::
    "'a asio_address \<Rightarrow> bool \<Rightarrow> ('e, 'a) cancel_network \<Rightarrow> string \<Rightarrow> ('e, 'a) world \<Rightarrow>
     ('e + ('e, 'a) tcp_socket) list \<Rightarrow> ('e, 'a) coroutine \<Rightarrow> ('e, 'a) world \<Rightarrow> bool" where
  "corresponds A md N service w rs (Spawned sv) w' = (sv = service \<and> rs = [] \<and> w' = w)"
| "corresponds A md N service w rs (Resolving sv) w' =
     (sv = service \<and> service \<noteq> [] \<and> rs = [] \<and> w' = w)"
| "corresponds A md N service w rs (Resolved x) w' =
     (service \<noteq> [] \<and> x = async_resolve N ''localhost'' service \<and> rs = [] \<and> w' = w)"
| "corresponds A md N service w rs Accepting w' =
     (list_model A md N service rs w = (Awaiting, w') \<and>
      (\<forall>qs v. list_model A md N service qs v = accept_loop A md (operation_aborted N) qs v))"
| "corresponds A md N service w rs (Accepted r) w' =
     (\<exists>qs. rs = qs @ [r] \<and> list_model A md N service qs w = (Awaiting, w') \<and>
      (\<forall>qs v. list_model A md N service qs v = accept_loop A md (operation_aborted N) qs v))"
| "corresponds A md N service w rs (Ended p) w' =
     (list_model A md N service rs w = (p, w') \<and> p \<noteq> Awaiting)"

lemma truncate_simps [simp]:
  "async_resolve (network.truncate N) = async_resolve N"
  "open_acceptor (network.truncate N) = open_acceptor N"
  "operation_aborted (network.truncate N) = operation_aborted N"
  by (simp_all add: network.truncate_def)

lemma resume_corresponds:
  assumes "corresponds A md N service w rs (coroutine s) (registry s)"
    and "runnable (coroutine s)" and "\<not> cancelled s"
  shows "corresponds A md N service w rs (coroutine (resume A md N (coroutine s) s))
    (registry (resume A md N (coroutine s) s))"
proof (cases "coroutine s")
  case (Spawned sv)
  with assms show ?thesis by (auto simp: start_accepting_def)
next
  case (Resolved x)
  show ?thesis
  proof (cases x)
    case (Inl e)
    with Resolved assms have "async_resolve N ''localhost'' service = Inl e" by simp
    with Resolved Inl assms show ?thesis by (auto simp: start_accepting_def)
  next
    case (Inr es)
    show ?thesis
    proof (cases es)
      case Nil
      with Resolved Inr assms have "async_resolve N ''localhost'' service = Inr []" by simp
      with Resolved Inr Nil assms show ?thesis by (auto simp: start_accepting_def)
    next
      case (Cons endpoint rest)
      with Resolved Inr assms have es: "async_resolve N ''localhost'' service = Inr (endpoint # rest)"
        by simp
      with Resolved Inr Cons assms show ?thesis
        by (cases "open_acceptor N endpoint")
          (auto simp: start_accepting_def await_accept_def)
    qed
  qed
next
  case (Accepted r)
  with assms obtain qs where rs: "rs = qs @ [r]"
    and q: "list_model A md N service qs w = (Awaiting, registry s)"
    and loop: "\<And>qs v. list_model A md N service qs v = accept_loop A md (operation_aborted N) qs v"
    by auto
  have next_result: "list_model A md N service rs w =
      accept_loop A md (operation_aborted N) [r] (registry s)"
    using q unfolding loop rs accept_loop_snoc by simp
  show ?thesis
  proof (cases r)
    case (Inl ec)
    with Accepted next_result loop assms(3) show ?thesis by (auto simp: await_accept_def)
  next
    case (Inr sk)
    obtain p w1 where m: "make_session sk (registry s) = (p, w1)" by force
    obtain x w2 where a: "add_session A md p w1 = (x, w2)" by force
    from Inr Accepted next_result loop assms(3) m a show ?thesis
      by (cases x) (auto simp: await_accept_def)
  qed
qed (use assms(2) in auto)

lemma run_corresponds:
  assumes "server_run A md N ls s0 s'" and "s0 = spawn_accepting b service w" and "Cancel \<notin> set ls"
  shows "corresponds A md N service w (results_of ls) (coroutine s') (registry s') \<and> \<not> cancelled s'"
  using assms
proof (induction rule: server_run.induct)
  case (run_nil s)
  then show ?case by (simp add: spawn_accepting_def)
next
  case (run_snoc ls s s1 l s2)
  then have IH: "corresponds A md N service w (results_of ls) (coroutine s1) (registry s1)"
    "\<not> cancelled s1" by auto
  from run_snoc.hyps(2) show ?case
  proof cases
    case resumes
    have "\<not> cancelled (resume A md N (coroutine s1) s1)"
      using IH(2) by (cases "(A, md, N, coroutine s1, s1)" rule: resume.cases)
        (auto simp: await_accept_def split: sum.splits prod.splits)
    with resumes resume_corresponds [OF IH(1) _ IH(2)] show ?thesis by simp
  next
    case (resolves sv)
    with IH show ?thesis by auto
  next
    case (accepts r)
    with IH show ?thesis by auto
  qed (use run_snoc.prems in auto)
qed

section \<open>After a cancellation\<close>

text \<open>How many steps a cancelled coroutine can still take.\<close>

fun steps_left :: "('e, 'a) coroutine \<Rightarrow> nat" where
  "steps_left (Resolving _) = 2"
| "steps_left (Ended _) = 0"
| "steps_left Accepting = 3"
| "steps_left _ = 1"

definition stopping :: "('e, 'a) server \<Rightarrow> bool" where
  "stopping s \<longleftrightarrow> (coroutine s \<noteq> Accepting \<and> cancelled s) \<or> (\<exists>p. coroutine s = Ended p)"

lemma cancel_stopping: "cancel_handler s \<Longrightarrow> stopping (cancel N s)"
  by (auto simp: cancel_def stopping_def split: coroutine.split)

lemma stopping_cancel:
  assumes "stopping s"
  shows "stopping (cancel N s) \<and> steps_left (coroutine (cancel N s)) \<le> steps_left (coroutine s) \<and>
    registry (cancel N s) = registry s"
  using assms by (auto simp: cancel_def stopping_def split: coroutine.splits)

lemma stopping_step:
  assumes "stopping s" and "server_step A md N l s s'" and "l \<noteq> Cancel"
  shows "stopping s' \<and> steps_left (coroutine s') < steps_left (coroutine s)"
  using assms(2)
proof cases
  case resumes
  then show ?thesis
    using assms(1) by (cases "(A, md, N, coroutine s, s)" rule: resume.cases)
      (auto simp: stopping_def await_accept_def split: sum.splits prod.splits)
qed (use assms in \<open>auto simp: stopping_def\<close>)

lemma stopping_run:
  assumes "server_run A md N ls s s'" and "stopping s"
  shows "stopping s' \<and>
    length (filter (\<lambda>l. l \<noteq> Cancel) ls) + steps_left (coroutine s') \<le> steps_left (coroutine s)"
  using assms
proof (induction rule: server_run.induct)
  case (run_snoc ls s s1 l s2)
  then show ?case
  proof (cases "l = Cancel")
    case True
    with run_snoc have "s2 = cancel N s1" by blast
    with run_snoc True stopping_cancel [of s1 N] show ?thesis by simp
  next
    case False
    with run_snoc stopping_step [of s1 A md N l s2] show ?thesis by simp
  qed
qed simp

section \<open>Helper facts on runs\<close>

lemma cancel_fields [simp]: "cancel_handler (cancel N s) = cancel_handler s"
  by (simp add: cancel_def split: coroutine.split)

lemma resume_handler [simp]: "cancel_handler (resume A md N c s) = cancel_handler s"
  by (cases "(A, md, N, c, s)" rule: resume.cases) (auto simp: await_accept_def split: sum.splits prod.splits)

lemma run_handler: "server_run A md N ls s s' \<Longrightarrow> cancel_handler s' = cancel_handler s"
proof (induction rule: server_run.induct)
  case (run_snoc ls s s1 l s2)
  from run_snoc.hyps(2) run_snoc.IH show ?case by cases auto
qed simp

text \<open>Unless it has ended, the coroutine can go on, once Asio has completed what it waits for.\<close>

lemma step_enabled:
  assumes "\<nexists>p. coroutine s = Ended p"
  shows "\<exists>l s'. l \<noteq> Cancel \<and> server_step A md N l s s'"
proof (cases "coroutine s")
  case (Resolving service)
  from resolves [OF this] show ?thesis by blast
next
  case Accepting
  from accepts [OF this] show ?thesis by blast
qed (use assms in \<open>force intro: resumes\<close>)+

lemma stopping_runnable_run:
  assumes "server_run A md N ls s s'" and "stopping s" and "runnable (coroutine s)"
  shows "s' = s \<or> (s' = resume A md N (coroutine s) s \<and> (\<exists>p. coroutine s' = Ended p))"
  using assms
proof (induction rule: server_run.induct)
  case (run_snoc ls s s1 l s2)
  have idle: "cancel N s = s"
    using run_snoc.prems by (cases "coroutine s") (auto simp: cancel_def stopping_def)
  have ended: "\<exists>p. coroutine (resume A md N (coroutine s) s) = Ended p"
    using run_snoc.prems by (cases "(A, md, N, coroutine s, s)" rule: resume.cases)
      (auto simp: stopping_def await_accept_def split: sum.splits prod.splits)
  from run_snoc consider "s1 = s" | p where "s1 = resume A md N (coroutine s) s" "coroutine s1 = Ended p"
    by blast
  then show ?case
  proof cases
    case 1
    from run_snoc.hyps(2) show ?thesis
      using 1 idle ended run_snoc.prems by cases auto
  next
    case 2
    from run_snoc.hyps(2) show ?thesis
      using 2 by cases (auto simp: cancel_def)
  qed
qed simp

section \<open>What a run can have done\<close>

text \<open>Accept results the loop ignores: failures other than \<open>operation_aborted\<close>.\<close>

definition ignorable :: "('e, 'a) cancel_network \<Rightarrow> ('e + ('e, 'a) tcp_socket) list \<Rightarrow> bool" where
  "ignorable N rs \<longleftrightarrow> list_all (\<lambda>r. isl r \<and> r \<noteq> Inl (operation_aborted N)) rs"

lemma ignorable_simps [simp]:
  "ignorable N []" "ignorable N (rs @ [r]) \<longleftrightarrow> ignorable N rs \<and> isl r \<and> r \<noteq> Inl (operation_aborted N)"
  by (simp_all add: ignorable_def)

text \<open>For the accept results \<open>rs\<close> so far; \<open>stop\<close> says that an effective \<open>cancel()\<close> was called.\<close>

definition outcome ::
    "'a asio_address \<Rightarrow> ('e, 'a) cancel_network \<Rightarrow> string \<Rightarrow> ('e, 'a) world \<Rightarrow> bool \<Rightarrow>
     ('e + ('e, 'a) tcp_socket) list \<Rightarrow> ('e, 'a) coroutine \<Rightarrow> ('e, 'a) world \<Rightarrow> bool" where
  "outcome A N service w stop rs c w' \<longleftrightarrow>
     (case c of
        Spawned sv \<Rightarrow> w' = w \<and> rs = [] \<and> sv = service
      | Resolving sv \<Rightarrow> w' = w \<and> rs = [] \<and> sv = service
      | Resolved x \<Rightarrow> w' = w \<and> rs = [] \<and>
          (x = async_resolve N ''localhost'' service \<or> x = Inl (aborted_error N) \<and> stop)
      | Accepting \<Rightarrow> w' = w \<and> ignorable N rs
      | Accepted r \<Rightarrow> w' = w \<and>
          ((\<exists>qs. rs = qs @ [r] \<and> ignorable N qs) \<or> r = Inl (operation_aborted N) \<and> ignorable N rs \<and> stop)
      | Ended Awaiting \<Rightarrow> False
      | Ended Finished \<Rightarrow> w' = w \<and>
          (service = [] \<or> ignorable N rs \<and> stop \<or>
           (\<exists>qs. rs = qs @ [Inl (operation_aborted N)] \<and> ignorable N qs))
      | Ended (Failed (Raised e)) \<Rightarrow> w' = w \<and> ignorable N rs \<and>
          (async_resolve N ''localhost'' service = Inl e \<or> (\<exists>endpoint. open_acceptor N endpoint = Inl e) \<or>
           e = aborted_error N \<and> stop)
      | Ended (Failed (Fault u)) \<Rightarrow>
          if u = Null_dereference then
            (\<exists>qs sk. rs = qs @ [Inr sk] \<and> ignorable N qs \<and>
               sessions w' = [session_id A sk \<mapsto> length (heap w)])
          else w' = w \<and> rs = [] \<and> async_resolve N ''localhost'' service = Inr [])"

lemma outcome_await:
  assumes "ignorable N rs" and "cancelled s \<longrightarrow> stop" and "registry s = w"
  shows "outcome A N service w stop rs (coroutine (await_accept N s)) (registry (await_accept N s))"
  using assms by (simp add: outcome_def await_accept_def)

lemma outcome_resume:
  assumes "outcome A N service w stop rs (coroutine s) (registry s)" and "sessions w = Map.empty"
    and "cancelled s \<longrightarrow> stop" and "runnable (coroutine s)"
  shows "outcome A N service w stop rs (coroutine (resume A md N (coroutine s) s))
    (registry (resume A md N (coroutine s) s))"
proof (cases "coroutine s")
  case (Spawned sv)
  with assms show ?thesis by (auto simp: outcome_def)
next
  case (Resolved x)
  then have old: "registry s = w" "rs = []"
    "async_resolve N ''localhost'' service = x \<or> x = Inl (aborted_error N) \<and> stop"
    using assms(1) by (auto simp: outcome_def)
  show ?thesis
  proof (cases x)
    case (Inl e)
    then have "resume A md N (coroutine s) s = s\<lparr>coroutine := Ended (Failed (Raised e))\<rparr>"
      using Resolved by simp
    then show ?thesis using old Inl by (auto simp: outcome_def)
  next
    case (Inr es)
    show ?thesis
    proof (cases es)
      case Nil
      then have "resume A md N (coroutine s) s = s\<lparr>coroutine := Ended (Failed (Fault Empty_range_dereference))\<rparr>"
        using Resolved Inr by simp
      then show ?thesis using old Inr Nil by (simp add: outcome_def)
    next
      case (Cons endpoint rest)
      show ?thesis
      proof (cases "open_acceptor N endpoint")
        case (Inl e)
        then have "resume A md N (coroutine s) s = s\<lparr>coroutine := Ended (Failed (Raised e))\<rparr>"
          using Resolved \<open>x = Inr es\<close> Cons by simp
        then show ?thesis using old Inl by (auto simp: outcome_def)
      next
        case opened: (Inr u)
        then have "resume A md N (coroutine s) s = await_accept N s"
          using Resolved Inr Cons by simp
        with outcome_await [of N rs s stop w] assms(3) old(1,2) show ?thesis by simp
      qed
    qed
  qed
next
  case (Accepted r)
  then have w: "registry s = w" using assms(1) by (simp add: outcome_def)
  show ?thesis
  proof (cases r)
    case (Inl ec)
    show ?thesis
    proof (cases "ec = operation_aborted N")
      case True
      with Accepted Inl assms(1) show ?thesis by (auto simp: outcome_def)
    next
      case False
      with Accepted Inl assms(1) have "ignorable N rs" by (auto simp: outcome_def)
      from outcome_await [OF this assms(3) w] False Accepted Inl show ?thesis by simp
    qed
  next
    case (Inr sk)
    obtain w2 where "add_session A md (Some (length (heap w))) (snd (make_session sk w)) =
        (Inl (Fault Null_dereference), w2)"
      and "sessions w2 = [session_id A sk \<mapsto> length (heap w)]"
      using add_made_session [OF assms(2)] by blast
    with Accepted Inr assms(1) w show ?thesis by (auto simp: outcome_def make_session_def)
  qed
qed (use assms(4) in auto)

lemma outcome_cancel:
  assumes "outcome A N service w stop rs (coroutine s) (registry s)"
  shows "outcome A N service w (stop \<or> cancel_handler s) rs (coroutine (cancel N s)) (registry (cancel N s))"
  using assms
  by (auto simp: outcome_def cancel_def split: coroutine.splits progress.splits failure.splits if_splits)

lemma server_outcome:
  assumes "server_run A md N ls (spawn_accepting bound service w) s" and "sessions w = Map.empty"
  shows "outcome A N service w (bound \<and> Cancel \<in> set ls) (results_of ls) (coroutine s) (registry s)"
proof -
  have "outcome A N service w (bound \<and> Cancel \<in> set ls) (results_of ls) (coroutine s) (registry s) \<and>
      (cancelled s \<longrightarrow> bound \<and> Cancel \<in> set ls)"
    if "server_run A md N ls s0 s" "s0 = spawn_accepting bound service w" for s0
    using that
  proof (induction rule: server_run.induct)
    case (run_nil s)
    then show ?case by (simp add: spawn_accepting_def outcome_def)
  next
    case (run_snoc ls s0 s1 l s2)
    then have IH: "outcome A N service w (bound \<and> Cancel \<in> set ls) (results_of ls) (coroutine s1) (registry s1)"
      "cancelled s1 \<longrightarrow> bound \<and> Cancel \<in> set ls" by auto
    have handler: "cancel_handler s1 = bound"
      using run_handler [OF run_snoc.hyps(1)] run_snoc.prems by (simp add: spawn_accepting_def)
    from run_snoc.hyps(2) show ?case
    proof cases
      case resumes
      have "cancelled (resume A md N (coroutine s1) s1) = cancelled s1"
        by (cases "(A, md, N, coroutine s1, s1)" rule: resume.cases)
          (auto simp: await_accept_def split: sum.splits prod.splits)
      with resumes outcome_resume [OF IH(1) assms(2) IH(2)] IH(2) show ?thesis by simp
    next
      case (resolves sv)
      with IH show ?thesis by (auto simp: outcome_def)
    next
      case (accepts r)
      with IH show ?thesis by (auto simp: outcome_def)
    next
      case cancels
      have "cancelled (cancel N s1) \<longrightarrow> cancelled s1 \<or> bound"
        using handler by (auto simp: cancel_def split: coroutine.splits)
      with cancels outcome_cancel [OF IH(1)] IH(2) handler show ?thesis by (cases bound) auto
    qed
  qed
  from this [OF assms(1) refl] show ?thesis by blast
qed

section \<open>Properties\<close>

text \<open>C18: What every ending of the accepting coroutine means, whatever the interleaving with Asio and
  with calls of \<open>cancel()\<close>, from a manager without sessions.  Until it ends, and unless it ends by
  a fault, it has changed nothing.  It ends normally only without a service, after an accept that gave
  \<open>operation_aborted\<close>, or cancelled; by an exception only if the resolver or the acceptor threw
  it or it was cancelled; and by a null dereference exactly at the first accepted connection,
  whose session is then the only one registered; the other undefined behaviour is the
  dereference of an empty list of endpoints.  Every accept result before was a failure other than
  \<open>operation_aborted\<close>.\<close>

theorem server_endings:
  assumes "server_run A md N ls (spawn_accepting bound service w) s" and "sessions w = Map.empty"
  shows "case coroutine s of
      Ended Awaiting \<Rightarrow> False
    | Ended Finished \<Rightarrow> registry s = w \<and>
        (service = [] \<or> ignorable N (results_of ls) \<and> bound \<and> Cancel \<in> set ls \<or>
         (\<exists>rs. results_of ls = rs @ [Inl (operation_aborted N)] \<and> ignorable N rs))
    | Ended (Failed (Raised e)) \<Rightarrow> registry s = w \<and> ignorable N (results_of ls) \<and>
        (async_resolve N ''localhost'' service = Inl e \<or> (\<exists>endpoint. open_acceptor N endpoint = Inl e) \<or>
         e = aborted_error N \<and> bound \<and> Cancel \<in> set ls)
    | Ended (Failed (Fault Null_dereference)) \<Rightarrow>
        (\<exists>rs sk. results_of ls = rs @ [Inr sk] \<and> ignorable N rs \<and>
           sessions (registry s) = [session_id A sk \<mapsto> length (heap w)])
    | Ended (Failed (Fault u)) \<Rightarrow> registry s = w \<and> results_of ls = [] \<and>
        async_resolve N ''localhost'' service = Inr []
    | Accepted r \<Rightarrow> registry s = w \<and>
        ((\<exists>rs. results_of ls = rs @ [r] \<and> ignorable N rs) \<or>
         r = Inl (operation_aborted N) \<and> ignorable N (results_of ls) \<and> bound \<and> Cancel \<in> set ls)
    | _ \<Rightarrow> registry s = w \<and> ignorable N (results_of ls)"
  using server_outcome [OF assms]
  by (auto simp: outcome_def split: coroutine.splits progress.splits failure.splits ub.splits)

definition sample_cancel_network :: "(nat, sample_address) cancel_network" where
  "sample_cancel_network =
     network.extend sample_network
       (cancel_network.fields False (Lib (Std_exn System_error True ''co_await: Operation aborted'')))"

definition failed_accept :: "(nat, sample_address) server_label list" where
  "failed_accept = [Resume, Resolve_done, Resume, Accept_done (Inl 24), Resume]"

lemma sample_cancel_network_simps [simp]:
  "async_resolve sample_cancel_network host service = Inr [\<lparr>address = Localhost, port = 80\<rparr>]"
  "open_acceptor sample_cancel_network e = Inr ()"
  "operation_aborted sample_cancel_network = 125"
  "aborted_error sample_cancel_network =
     Lib (Std_exn System_error True ''co_await: Operation aborted'')"
  "network.truncate sample_cancel_network = sample_network"
  by (simp_all add: sample_cancel_network_def sample_network_def network.defs cancel_network.defs)

lemma failed_accept_run:
  "server_run sample_asio True sample_cancel_network failed_accept
     (spawn_accepting b ''http'' new_world)
     \<lparr>cancel_handler = b, cancelled = False, coroutine = Accepting, registry = new_world\<rparr>"
proof -
  let ?s = "\<lambda>c. \<lparr>cancel_handler = b, cancelled = False, coroutine = c, registry = new_world\<rparr>"
  let ?step = "server_step sample_asio True sample_cancel_network"
  have "?step Resume (?s (Spawned ''http'')) (?s (Resolving ''http''))"
    and "?step Resume (?s (Resolved (Inr [\<lparr>address = Localhost, port = 80\<rparr>]))) (?s Accepting)"
    and "?step Resume (?s (Accepted (Inl 24))) (?s Accepting)"
    using resumes [of "?s (Spawned ''http'')" sample_asio True sample_cancel_network]
      resumes [of "?s (Resolved (Inr [\<lparr>address = Localhost, port = 80\<rparr>]))" sample_asio True sample_cancel_network]
      resumes [of "?s (Accepted (Inl 24))" sample_asio True sample_cancel_network]
    by (simp_all add: await_accept_def)
  moreover have "?step Resolve_done (?s (Resolving ''http''))
      (?s (Resolved (Inr [\<lparr>address = Localhost, port = 80\<rparr>])))"
    using resolves [of "?s (Resolving ''http'')" "''http''" sample_asio True sample_cancel_network] by simp
  moreover have "?step (Accept_done (Inl 24)) (?s Accepting) (?s (Accepted (Inl 24)))"
    using accepts [of "?s Accepting" sample_asio True sample_cancel_network "Inl 24"] by simp
  ultimately show ?thesis
    using run_snoc [OF run_snoc [OF run_snoc [OF run_snoc [OF run_snoc [OF run_nil]]]]]
    by (simp add: failed_accept_def spawn_accepting_def)
qed

theorem server_endings_witness:
  "\<exists>s. server_run sample_asio True sample_cancel_network
      (failed_accept @ [Accept_done (Inr (Inr \<lparr>address = Neighbour, port = 4000\<rparr>)), Resume])
      (spawn_accepting True ''http'' new_world) s \<and>
    coroutine s = Ended (Failed (Fault Null_dereference)) \<and>
    sessions (registry s) = [''10.0.0.2:4000'' \<mapsto> 0]"
proof -
  let ?s = "\<lambda>c. \<lparr>cancel_handler = True, cancelled = False, coroutine = c, registry = new_world\<rparr>"
  let ?sk = "Inr \<lparr>address = Neighbour, port = 4000\<rparr> :: (nat, sample_address) tcp_socket"
  let ?s2 = "resume sample_asio True sample_cancel_network (Accepted (Inr ?sk)) (?s (Accepted (Inr ?sk)))"
  have "server_step sample_asio True sample_cancel_network (Accept_done (Inr ?sk)) (?s Accepting)
      (?s (Accepted (Inr ?sk)))"
    using accepts [of "?s Accepting" sample_asio True sample_cancel_network "Inr ?sk"] by simp
  moreover have "server_step sample_asio True sample_cancel_network Resume (?s (Accepted (Inr ?sk))) ?s2"
    using resumes [of "?s (Accepted (Inr ?sk))" sample_asio True sample_cancel_network] by simp
  ultimately have run: "server_run sample_asio True sample_cancel_network
      (failed_accept @ [Accept_done (Inr ?sk), Resume]) (spawn_accepting True ''http'' new_world) ?s2"
    using run_snoc [OF run_snoc [OF failed_accept_run]] by simp
  have ended: "coroutine ?s2 = Ended (Failed (Fault Null_dereference))"
    by (simp add: make_session_def add_session_def deref_def new_world_def Let_def)
  have "session_id sample_asio ?sk = ''10.0.0.2:4000''"
    by (simp add: session_id_def sample_asio_def decimal.simps digits_def)
  with server_endings [OF run] ended run show ?thesis
    by (auto simp: new_world_def failed_accept_def)
qed

text \<open>C17: With the slot bound, \<open>cancel()\<close> stops the server: after it the coroutine takes at most two
  more steps (the resolver's result and one resumption), accepts no further connection, and can
  take them until it has ended.  Cancelled while it waits for a connection it ends normally and
  the registry is unchanged; cancelled when a failed accept is already queued it ends with the
  exception \<open>operation_aborted\<close>.\<close>

theorem cancelled_server_stops:
  assumes "server_run A md N before (spawn_accepting True service w) s"
    and "server_run A md N after (cancel N s) s'"
  shows "length (filter (\<lambda>l. l \<noteq> Cancel) after) \<le> 2 \<and>
    coroutine s' \<noteq> Accepting \<and>
    ((\<nexists>p. coroutine s' = Ended p) \<longrightarrow> (\<exists>l s''. l \<noteq> Cancel \<and> server_step A md N l s' s'')) \<and>
    (coroutine s = Accepting \<longrightarrow>
      coroutine s' \<in> {Accepted (Inl (operation_aborted N)), Ended Finished} \<and>
      registry s' = registry s) \<and>
    (\<forall>ec. coroutine s = Accepted (Inl ec) \<and> ec \<noteq> operation_aborted N \<longrightarrow>
      coroutine s' \<in> {Accepted (Inl ec), Ended (Failed (Raised (aborted_error N)))} \<and>
      registry s' = registry s)"
proof -
  have handler: "cancel_handler s"
    using run_handler [OF assms(1)] by (simp add: spawn_accepting_def)
  note stop = cancel_stopping [OF this, of N]
  note rest = stopping_run [OF assms(2) stop]
  have "steps_left (coroutine (cancel N s)) \<le> 2"
    using handler by (simp add: cancel_def split: coroutine.split)
  with rest have "length (filter (\<lambda>l. l \<noteq> Cancel) after) \<le> 2" by linarith
  moreover have "coroutine s' \<noteq> Accepting" using rest by (auto simp: stopping_def)
  moreover have "coroutine s' \<in> {Accepted (Inl (operation_aborted N)), Ended Finished} \<and>
      registry s' = registry s" if "coroutine s = Accepting"
  proof -
    have "coroutine (cancel N s) = Accepted (Inl (operation_aborted N))"
      and "registry (cancel N s) = registry s"
      using that handler by (simp_all add: cancel_def)
    with stopping_runnable_run [OF assms(2) stop] show ?thesis by auto
  qed
  moreover have "coroutine s' \<in> {Accepted (Inl ec), Ended (Failed (Raised (aborted_error N)))} \<and>
      registry s' = registry s" if "coroutine s = Accepted (Inl ec)" "ec \<noteq> operation_aborted N" for ec
  proof -
    have "cancel N s = s\<lparr>cancelled := True\<rparr>" using that handler by (simp add: cancel_def)
    with that stopping_runnable_run [OF assms(2) stop] show ?thesis by (auto simp: await_accept_def)
  qed
  ultimately show ?thesis using step_enabled [of s' A md N] by blast
qed

theorem cancelled_server_stops_witness:
  "\<exists>s'. server_run sample_asio True sample_cancel_network [Resume]
      (cancel sample_cancel_network
        \<lparr>cancel_handler = True, cancelled = False, coroutine = Accepting, registry = new_world\<rparr>) s' \<and>
    coroutine s' = Ended Finished \<and> registry s' = new_world"
proof -
  let ?s = "\<lparr>cancel_handler = True, cancelled = False, coroutine = Accepting, registry = new_world\<rparr> ::
    (nat, sample_address) server"
  let ?c = "cancel sample_cancel_network ?s"
  let ?s' = "resume sample_asio True sample_cancel_network (coroutine ?c) ?c"
  have c: "coroutine ?c = Accepted (Inl 125)" by (simp add: cancel_def)
  have "server_step sample_asio True sample_cancel_network Resume ?c ?s'"
    by (rule resumes) (simp add: c)
  from run_snoc [OF run_nil this] have run: "server_run sample_asio True sample_cancel_network [Resume] ?c ?s'"
    by simp
  have "coroutine ?s' = Ended Finished" by (simp add: c)
  with run cancelled_server_stops [OF failed_accept_run run] show ?thesis by auto
qed

end
