(* ===== verification/Json_Interface.thy ===== *)
theory Json_Interface
  imports Exceptions Keyed_Store
begin

text \<open>
  The part of Boost.JSON the settings use, as a parameter \<open>J\<close>, with the contract its
  documentation gives: a value of type \<open>'j\<close>, an object of type \<open>'o\<close>.  A reference
  document model satisfies the contract.
\<close>

section \<open>The interface\<close>

text \<open>
  \<open>list_error\<close> is the exception a conversion to a container throws when the conversion of an
  element has thrown (Boost.JSON may replace it by one of its own).
\<close>

record ('j, 'o) json_api =
  as_object :: "'j \<Rightarrow> lib_exn + 'o"
  if_contains :: "'o \<Rightarrow> string \<Rightarrow> 'j option"
  at :: "'o \<Rightarrow> string \<Rightarrow> lib_exn + 'j"
  to_bool :: "'j \<Rightarrow> lib_exn + bool"
  to_string :: "'j \<Rightarrow> lib_exn + string"
  to_array :: "'j \<Rightarrow> lib_exn + 'j list"
  list_error :: "lib_exn \<Rightarrow> lib_exn"
  empty_object :: 'o
  set_key :: "string \<Rightarrow> 'j \<Rightarrow> 'o \<Rightarrow> 'o"
  of_object :: "'o \<Rightarrow> 'j"
  of_bool_value :: "bool \<Rightarrow> 'j"
  of_string :: "string \<Rightarrow> 'j"
  of_optional :: "string option \<Rightarrow> 'j"
  of_array :: "'j list \<Rightarrow> 'j"

text \<open>\<open>value_to<std::vector<T>>\<close>, given the conversion of an element.\<close>

definition to_list :: "('j, 'o) json_api \<Rightarrow> ('j \<Rightarrow> lib_exn + 't) \<Rightarrow> 'j \<Rightarrow> lib_exn + 't list" where
  "to_list J conv jv =
     bind_res (to_array J jv)
       (mapM_res (\<lambda>v. case conv v of Inl e \<Rightarrow> Inl (list_error J e) | Inr x \<Rightarrow> Inr x))"

text \<open>The expression \<open>obj.if_contains(key) ? value_to<T>(obj.at(key)) : dflt\<close>.\<close>

definition field :: "('j, 'o) json_api \<Rightarrow> ('j \<Rightarrow> lib_exn + 't) \<Rightarrow> 't \<Rightarrow> 'o \<Rightarrow> string \<Rightarrow> lib_exn + 't" where
  "field J conv dflt obj key =
     (case if_contains J obj key of
        None \<Rightarrow> Inr dflt
      | Some _ \<Rightarrow> bind_res (at J obj key) conv)"

section \<open>Its contract\<close>

locale json_library = obj: keyed_store "if_contains J" "set_key J"
  for J :: "('j, 'o) json_api" +
  assumes at_present: "if_contains J obj key = Some v \<Longrightarrow> at J obj key = Inr v"
    and contains_empty: "if_contains J (empty_object J) key = None"
    and as_of_object: "as_object J (of_object J obj) = Inr obj"
    and to_of_bool: "to_bool J (of_bool_value J b) = Inr b"
    and to_of_string: "to_string J (of_string J s) = Inr s"
    and to_of_array: "to_array J (of_array J vs) = Inr vs"
    and of_some: "of_optional J (Some s) = of_string J s"
    and null_not_string: "isl (to_string J (of_optional J None))"
begin

lemma field_present: "if_contains J obj key = Some v \<Longrightarrow> field J conv dflt obj key = conv v"
  by (simp add: field_def at_present)

lemma field_absent: "if_contains J obj key = None \<Longrightarrow> field J conv dflt obj key = Inr dflt"
  by (simp add: field_def)

lemma field_empty [simp]: "field J conv dflt (empty_object J) key = Inr dflt"
  by (simp add: field_def contains_empty)

lemma field_set [simp]:
  "field J conv dflt (set_key J key v obj) key' =
     (if key' = key then conv v else field J conv dflt obj key')"
  by (cases "if_contains J obj key'") (simp_all add: field_def obj.get_put at_present)

text \<open>A field depends on the object only through its key.\<close>

lemma field_cong:
  "if_contains J obj key = if_contains J obj' key \<Longrightarrow>
    field J conv dflt obj key = field J conv dflt obj' key"
  by (cases "if_contains J obj' key") (simp_all add: field_def at_present)

lemma optional_back: "to_string J (of_optional J x) = Inr y \<Longrightarrow> x = Some y"
  using null_not_string by (cases x) (auto simp: of_some to_of_string)

lemma to_list_back:
  assumes "\<And>x. x \<in> set xs \<Longrightarrow> conv (g x) = Inr x"
  shows "to_list J conv (of_array J (map g xs)) = Inr xs"
  unfolding to_list_def to_of_array bind_res.simps
  by (rule mapM_res_map_inverse) (simp add: assms)

lemma to_list_Inr_back:
  assumes "to_list J conv (of_array J (map g xs)) = Inr ys"
  shows "list_all2 (\<lambda>x y. conv (g x) = Inr y) xs ys"
  using assms
  by (auto simp: to_list_def to_of_array mapM_res_Inr_iff list.rel_map
      elim!: list_all2_mono split: sum.splits)

end

section \<open>A reference document model\<close>

text \<open>JSON documents without numbers; an object keeps its members in insertion order, and \<open>obj[key] = v\<close> replaces
  a member in its place or appends a new one.\<close>

datatype json =
    JNull
  | JBool bool
  | JString string
  | JArray "json list"
  | JObject "(string \<times> json) list"

fun assign_member :: "string \<Rightarrow> json \<Rightarrow> (string \<times> json) list \<Rightarrow> (string \<times> json) list" where
  "assign_member k v [] = [(k, v)]"
| "assign_member k v ((k', v') # ms) =
     (if k' = k then (k, v) # ms else (k', v') # assign_member k v ms)"

definition json_error :: "string \<Rightarrow> lib_exn" where
  "json_error msg = Std_exn System_error True msg"

definition reference_json :: "(json, (string \<times> json) list) json_api" where
  "reference_json =
     \<lparr>as_object = (\<lambda>j. case j of JObject ms \<Rightarrow> Inr ms | _ \<Rightarrow> Inl (json_error ''not an object'')),
      if_contains = map_of,
      at = (\<lambda>ms k. case map_of ms k of Some v \<Rightarrow> Inr v | None \<Rightarrow> Inl (json_error ''out of range'')),
      to_bool = (\<lambda>j. case j of JBool b \<Rightarrow> Inr b | _ \<Rightarrow> Inl (json_error ''not a bool'')),
      to_string = (\<lambda>j. case j of JString s \<Rightarrow> Inr s | _ \<Rightarrow> Inl (json_error ''not a string'')),
      to_array = (\<lambda>j. case j of JArray vs \<Rightarrow> Inr vs | _ \<Rightarrow> Inl (json_error ''not an array'')),
      list_error = id,
      empty_object = [],
      set_key = assign_member,
      of_object = JObject,
      of_bool_value = JBool,
      of_string = JString,
      of_optional = (\<lambda>x. case x of None \<Rightarrow> JNull | Some s \<Rightarrow> JString s),
      of_array = JArray\<rparr>"

lemma map_of_assign_member: "map_of (assign_member k v ms) k' = (if k' = k then Some v else map_of ms k')"
  by (induction ms) auto

interpretation refj: json_library reference_json
  by unfold_locales (simp_all add: reference_json_def map_of_assign_member)

lemma reference_json_simps [simp]:
  "as_object reference_json (JObject ms) = Inr ms"
  "to_bool reference_json (JBool b) = Inr b"
  "to_string reference_json (JString s) = Inr s"
  "to_array reference_json (JArray vs) = Inr vs"
  "if_contains reference_json ms k = map_of ms k"
  "of_object reference_json ms = JObject ms"
  "of_optional reference_json None = JNull"
  "of_optional reference_json (Some s) = JString s"
  "to_string reference_json JNull = Inl (json_error ''not a string'')"
  "empty_object reference_json = []"
  "set_key reference_json k v ms = assign_member k v ms"
  "of_string reference_json s = JString s"
  "of_bool_value reference_json b = JBool b"
  "of_array reference_json vs = JArray vs"
  by (simp_all add: reference_json_def)

end
