(* ===== verification/Settings.thy ===== *)
theory Settings
  imports Json_Interface
begin

text \<open>
  The settings structures and their conversions from and to JSON, \<open>core::settings\<close>
  (\<open>libs/core/include/core/settings/{commons,communications,input_file}.hpp\<close> and the \<open>.cpp\<close>
  files of the same names in \<open>libs/core/src/settings\<close>).  \<open>X_of_json\<close> is
  \<open>tag_invoke(value_to_tag<X>, jv)\<close>, \<open>json_of_X\<close> is \<open>tag_invoke(value_from_tag, jv, x)\<close>; JSON
  itself is the parameter \<open>J\<close> of \<open>Json_Interface\<close>.
\<close>

section \<open>The structures\<close>

record commons =
  app_name :: string
  version :: string

record server_settings =
  server_enable :: bool
  server_name :: string
  server_service :: "string option"

record client_settings =
  client_enable :: bool
  client_name :: string
  client_host :: "string option"
  client_service :: "string option"

record communications =
  server :: server_settings
  clients :: "client_settings list"

record input_file =
  file_commons :: commons
  file_communications :: communications

text \<open>The default member initialisers.\<close>

definition default_commons :: commons where
  "default_commons = \<lparr>app_name = '''', version = ''''\<rparr>"

definition default_server :: server_settings where
  "default_server = \<lparr>server_enable = False, server_name = '''', server_service = None\<rparr>"

definition default_client :: client_settings where
  "default_client =
     \<lparr>client_enable = False, client_name = '''', client_host = None, client_service = None\<rparr>"

definition default_communications :: communications where
  "default_communications = \<lparr>server = default_server, clients = []\<rparr>"

definition default_input_file :: input_file where
  "default_input_file =
     \<lparr>file_commons = default_commons, file_communications = default_communications\<rparr>"

lemmas default_defs = default_commons_def default_server_def default_client_def
  default_communications_def default_input_file_def

section \<open>Relative paths\<close>

text \<open>\<open>resolve_relative_path\<close>: no structure holds a path yet.\<close>

definition resolve_commons :: "'p \<Rightarrow> commons \<Rightarrow> commons" where
  "resolve_commons path c = c"

definition resolve_server :: "'p \<Rightarrow> server_settings \<Rightarrow> server_settings" where
  "resolve_server path s = s"

definition resolve_client :: "'p \<Rightarrow> client_settings \<Rightarrow> client_settings" where
  "resolve_client path c = c"

definition resolve_communications :: "'p \<Rightarrow> communications \<Rightarrow> communications" where
  "resolve_communications path c =
     c\<lparr>server := resolve_server path (server c), clients := map (resolve_client path) (clients c)\<rparr>"

definition resolve_input_file :: "'p \<Rightarrow> input_file \<Rightarrow> input_file" where
  "resolve_input_file path f =
     f\<lparr>file_commons := resolve_commons path (file_commons f),
       file_communications := resolve_communications path (file_communications f)\<rparr>"

lemma resolve_input_file_id [simp]: "resolve_input_file path f = f"
proof -
  have "resolve_client path = id" by (rule ext) (simp add: resolve_client_def)
  then show ?thesis
    by (simp add: resolve_input_file_def resolve_commons_def resolve_communications_def
        resolve_server_def)
qed

text \<open>The interface \<open>i_input_data\<close>, implemented by the five structures.\<close>

datatype input_data =
    Commons_data commons
  | Server_data server_settings
  | Client_data client_settings
  | Communications_data communications
  | Input_file_data input_file

fun resolve_relative_path :: "'p \<Rightarrow> input_data \<Rightarrow> input_data" where
  "resolve_relative_path path (Commons_data c) = Commons_data (resolve_commons path c)"
| "resolve_relative_path path (Server_data s) = Server_data (resolve_server path s)"
| "resolve_relative_path path (Client_data c) = Client_data (resolve_client path c)"
| "resolve_relative_path path (Communications_data c) = Communications_data (resolve_communications path c)"
| "resolve_relative_path path (Input_file_data f) = Input_file_data (resolve_input_file path f)"

section \<open>From JSON\<close>

definition commons_of_json :: "('j, 'o) json_api \<Rightarrow> 'j \<Rightarrow> lib_exn + commons" where
  "commons_of_json J jv =
     bind_res (as_object J jv) (\<lambda>obj.
     bind_res (field J (to_string J) '''' obj ''appName'') (\<lambda>n.
     bind_res (field J (to_string J) '''' obj ''version'') (\<lambda>v.
       Inr \<lparr>app_name = n, version = v\<rparr>)))"

definition to_some_string :: "('j, 'o) json_api \<Rightarrow> 'j \<Rightarrow> lib_exn + string option" where
  "to_some_string J jv = bind_res (to_string J jv) (\<lambda>s. Inr (Some s))"

definition server_of_json :: "('j, 'o) json_api \<Rightarrow> 'j \<Rightarrow> lib_exn + server_settings" where
  "server_of_json J jv =
     bind_res (as_object J jv) (\<lambda>obj.
     bind_res (field J (to_bool J) False obj ''enable'') (\<lambda>e.
     bind_res (field J (to_string J) '''' obj ''name'') (\<lambda>n.
     bind_res (field J (to_some_string J) None obj ''service'') (\<lambda>s.
       Inr \<lparr>server_enable = e, server_name = n, server_service = s\<rparr>))))"

definition client_of_json :: "('j, 'o) json_api \<Rightarrow> 'j \<Rightarrow> lib_exn + client_settings" where
  "client_of_json J jv =
     bind_res (as_object J jv) (\<lambda>obj.
     bind_res (field J (to_bool J) False obj ''enable'') (\<lambda>e.
     bind_res (field J (to_string J) '''' obj ''name'') (\<lambda>n.
     bind_res (field J (to_some_string J) None obj ''host'') (\<lambda>h.
     bind_res (field J (to_some_string J) None obj ''service'') (\<lambda>s.
       Inr \<lparr>client_enable = e, client_name = n, client_host = h, client_service = s\<rparr>)))))"

definition communications_of_json :: "('j, 'o) json_api \<Rightarrow> 'j \<Rightarrow> lib_exn + communications" where
  "communications_of_json J jv =
     bind_res (as_object J jv) (\<lambda>obj.
     bind_res (field J (server_of_json J) default_server obj ''server'') (\<lambda>s.
     bind_res (field J (to_list J (client_of_json J)) [] obj ''clients'') (\<lambda>cs.
       Inr \<lparr>server = s, clients = cs\<rparr>)))"

definition input_file_of_json :: "('j, 'o) json_api \<Rightarrow> 'j \<Rightarrow> lib_exn + input_file" where
  "input_file_of_json J jv =
     bind_res (as_object J jv) (\<lambda>obj.
     bind_res (field J (commons_of_json J) default_commons obj ''commons'') (\<lambda>c.
     bind_res (field J (communications_of_json J) default_communications obj ''communications'') (\<lambda>m.
       Inr \<lparr>file_commons = c, file_communications = m\<rparr>)))"

section \<open>To JSON\<close>

definition json_of_commons :: "('j, 'o) json_api \<Rightarrow> commons \<Rightarrow> 'j" where
  "json_of_commons J c =
     (let obj = empty_object J;
          obj = (if app_name c \<noteq> [] then set_key J ''appName'' (of_string J (app_name c)) obj else obj);
          obj = (if version c \<noteq> [] then set_key J ''version'' (of_string J (version c)) obj else obj)
      in of_object J obj)"

definition json_of_server :: "('j, 'o) json_api \<Rightarrow> server_settings \<Rightarrow> 'j" where
  "json_of_server J s =
     (let obj = empty_object J;
          obj = set_key J ''enable'' (of_bool_value J (server_enable s)) obj;
          obj = set_key J ''name'' (of_string J (server_name s)) obj;
          obj = set_key J ''service'' (of_optional J (server_service s)) obj
      in of_object J obj)"

definition json_of_client :: "('j, 'o) json_api \<Rightarrow> client_settings \<Rightarrow> 'j" where
  "json_of_client J c =
     (let obj = empty_object J;
          obj = set_key J ''enable'' (of_bool_value J (client_enable c)) obj;
          obj = set_key J ''name'' (of_string J (client_name c)) obj;
          obj = set_key J ''host'' (of_optional J (client_host c)) obj;
          obj = set_key J ''service'' (of_optional J (client_service c)) obj
      in of_object J obj)"

definition json_of_communications :: "('j, 'o) json_api \<Rightarrow> communications \<Rightarrow> 'j" where
  "json_of_communications J m =
     (let obj = empty_object J;
          obj = set_key J ''server'' (json_of_server J (server m)) obj;
          obj = set_key J ''clients'' (of_array J (map (json_of_client J) (clients m))) obj
      in of_object J obj)"

definition json_of_input_file :: "('j, 'o) json_api \<Rightarrow> input_file \<Rightarrow> 'j" where
  "json_of_input_file J f =
     (let obj = empty_object J;
          obj = set_key J ''commons'' (json_of_commons J (file_commons f)) obj;
          obj = set_key J ''communications'' (json_of_communications J (file_communications f)) obj
      in of_object J obj)"

section \<open>Which settings survive a round trip\<close>

text \<open>The optional members, all present.\<close>

fun client_complete :: "client_settings \<Rightarrow> bool" where
  "client_complete c = (client_host c \<noteq> None \<and> client_service c \<noteq> None)"

fun complete_settings :: "input_file \<Rightarrow> bool" where
  "complete_settings f =
     (server_service (server (file_communications f)) \<noteq> None \<and>
      list_all client_complete (clients (file_communications f)))"

context json_library
begin

lemmas read_simps = as_of_object to_of_bool to_of_string to_of_array of_some to_some_string_def

lemma to_some_string_back:
  "to_some_string J (of_optional J x) = Inr y \<longleftrightarrow> x \<noteq> None \<and> y = x"
proof (cases x)
  case None
  obtain e where "to_string J (of_optional J None) = Inl e"
    using null_not_string by (cases "to_string J (of_optional J None)") auto
  with None show ?thesis by (simp add: to_some_string_def)
qed (auto simp: read_simps)

lemma commons_back: "commons_of_json J (json_of_commons J c) = Inr c"
  by (cases c) (simp add: commons_of_json_def json_of_commons_def Let_def read_simps)

lemma server_back:
  "server_of_json J (json_of_server J s) = Inr s' \<longleftrightarrow> server_service s \<noteq> None \<and> s' = s"
  by (cases s; cases s')
    (auto simp: server_of_json_def json_of_server_def Let_def read_simps(1-4) res_simps
      to_some_string_back)

lemma client_back:
  "client_of_json J (json_of_client J c) = Inr c' \<longleftrightarrow> client_complete c \<and> c' = c"
  by (cases c; cases c')
    (auto simp: client_of_json_def json_of_client_def Let_def read_simps(1-4) res_simps
      to_some_string_back)

lemma clients_back:
  "to_list J (client_of_json J) (of_array J (map (json_of_client J) cs)) = Inr cs' \<longleftrightarrow>
    list_all client_complete cs \<and> cs' = cs"
proof
  assume "to_list J (client_of_json J) (of_array J (map (json_of_client J) cs)) = Inr cs'"
  then have "list_all2 (\<lambda>x y. client_complete x \<and> y = x) cs cs'"
    using to_list_Inr_back [of "client_of_json J" "json_of_client J" cs cs'] by (simp only: client_back)
  then show "list_all client_complete cs \<and> cs' = cs"
    by (induction rule: list_all2_induct) auto
next
  assume "list_all client_complete cs \<and> cs' = cs"
  then show "to_list J (client_of_json J) (of_array J (map (json_of_client J) cs)) = Inr cs'"
    by (auto simp: client_back list_all_iff intro!: to_list_back)
qed

lemma communications_back:
  "communications_of_json J (json_of_communications J m) = Inr m' \<longleftrightarrow>
    server_service (server m) \<noteq> None \<and> list_all client_complete (clients m) \<and> m' = m"
  by (cases m; cases m')
    (auto simp: communications_of_json_def json_of_communications_def Let_def read_simps(1-4)
      res_simps server_back clients_back)

lemma input_file_back:
  "input_file_of_json J (json_of_input_file J f) = Inr f' \<longleftrightarrow> complete_settings f \<and> f' = f"
  by (cases f; cases f')
    (auto simp: input_file_of_json_def json_of_input_file_def Let_def read_simps(1-4)
      res_simps commons_back communications_back)

text \<open>Adding a member under a key the reader does not know.\<close>

lemma client_other_key:
  assumes "key \<notin> {''enable'', ''name'', ''host'', ''service''}"
  shows "client_of_json J (of_object J (set_key J key v obj)) = client_of_json J (of_object J obj)"
  using assms by (auto simp: client_of_json_def as_of_object)

lemma input_file_cong:
  assumes "as_object J jv = Inr obj" and "as_object J jv' = Inr obj'"
    and "if_contains J obj ''commons'' = if_contains J obj' ''commons''"
    and "if_contains J obj ''communications'' = if_contains J obj' ''communications''"
  shows "input_file_of_json J jv = input_file_of_json J jv'"
  using assms by (simp add: input_file_of_json_def field_cong [OF assms(3)] field_cong [OF assms(4)])

lemma defaults_read:
  "input_file_of_json J (of_object J (empty_object J)) = Inr default_input_file"
  "server_of_json J (of_object J (empty_object J)) = Inr default_server"
  "client_of_json J (of_object J (empty_object J)) = Inr default_client"
  by (simp_all add: input_file_of_json_def server_of_json_def client_of_json_def as_of_object
      default_defs)

end

section \<open>Example documents\<close>

text \<open>The configuration file the repository ships, \<open>etc/app.jsonc\<close>, as a JSON value.\<close>

definition shipped_client :: "('j, 'o) json_api \<Rightarrow> 'o" where
  "shipped_client J =
     set_key J ''service'' (of_string J ''8080'')
       (set_key J ''address'' (of_string J ''127.0.0.1'')
         (set_key J ''name'' (of_string J ''Client A'')
           (set_key J ''enable'' (of_bool_value J True) (empty_object J))))"

definition shipped_configuration :: "('j, 'o) json_api \<Rightarrow> 'j" where
  "shipped_configuration J =
     (let commons = set_key J ''version'' (of_string J ''1.0.0'')
            (set_key J ''appName'' (of_string J ''My App'') (empty_object J));
          server = set_key J ''service'' (of_string J ''8080'')
            (set_key J ''name'' (of_string J ''Server A'')
              (set_key J ''enable'' (of_bool_value J True) (empty_object J)));
          communications = set_key J ''clients'' (of_array J [of_object J (shipped_client J)])
            (set_key J ''server'' (of_object J server) (empty_object J))
      in of_object J
           (set_key J ''communications'' (of_object J communications)
             (set_key J ''commons'' (of_object J commons) (empty_object J))))"

definition sample_settings :: input_file where
  "sample_settings =
     \<lparr>file_commons = \<lparr>app_name = '''', version = ''2.0''\<rparr>,
      file_communications =
        \<lparr>server = \<lparr>server_enable = True, server_name = ''sv'', server_service = Some ''9000''\<rparr>,
         clients =
           [\<lparr>client_enable = False, client_name = ''c1'', client_host = Some ''10.0.0.2'',
             client_service = Some ''9000''\<rparr>]\<rparr>\<rparr>"

lemma sample_settings_complete: "complete_settings sample_settings"
  by (simp add: sample_settings_def)

context json_library
begin

lemma shipped_read:
  "input_file_of_json J (shipped_configuration J) =
     Inr \<lparr>file_commons = \<lparr>app_name = ''My App'', version = ''1.0.0''\<rparr>,
       file_communications =
         \<lparr>server = \<lparr>server_enable = True, server_name = ''Server A'', server_service = Some ''8080''\<rparr>,
          clients =
            [\<lparr>client_enable = True, client_name = ''Client A'', client_host = None,
              client_service = Some ''8080''\<rparr>]\<rparr>\<rparr>"
proof -
  have "client_of_json J (of_object J (shipped_client J)) =
      Inr \<lparr>client_enable = True, client_name = ''Client A'', client_host = None,
        client_service = Some ''8080''\<rparr>"
    by (simp add: client_of_json_def shipped_client_def read_simps)
  then show ?thesis
    by (simp add: shipped_configuration_def Let_def input_file_of_json_def commons_of_json_def
        communications_of_json_def server_of_json_def to_list_def read_simps)
qed

lemma field_spec:
  "field J conv dflt obj key = Inr x \<longleftrightarrow>
    (case if_contains J obj key of None \<Rightarrow> x = dflt | Some v \<Rightarrow> conv v = Inr x)"
  by (cases "if_contains J obj key") (auto simp: field_def at_present)

lemma to_some_string_Inr:
  "to_some_string J v = Inr x \<longleftrightarrow> (\<exists>s. x = Some s \<and> to_string J v = Inr s)"
  by (auto simp: to_some_string_def res_simps)

lemma client_fields:
  "client_of_json J jv = Inr c \<longleftrightarrow>
    (\<exists>obj. as_object J jv = Inr obj \<and>
      field J (to_bool J) False obj ''enable'' = Inr (client_enable c) \<and>
      field J (to_string J) '''' obj ''name'' = Inr (client_name c) \<and>
      field J (to_some_string J) None obj ''host'' = Inr (client_host c) \<and>
      field J (to_some_string J) None obj ''service'' = Inr (client_service c))"
  by (cases c) (auto simp: client_of_json_def res_simps)

lemma client_reads:
  "client_of_json J jv = Inr c \<longleftrightarrow>
    (\<exists>obj. as_object J jv = Inr obj \<and>
      (case if_contains J obj ''enable'' of
         None \<Rightarrow> \<not> client_enable c | Some v \<Rightarrow> to_bool J v = Inr (client_enable c)) \<and>
      (case if_contains J obj ''name'' of
         None \<Rightarrow> client_name c = '''' | Some v \<Rightarrow> to_string J v = Inr (client_name c)) \<and>
      (case if_contains J obj ''host'' of
         None \<Rightarrow> client_host c = None
       | Some v \<Rightarrow> (\<exists>s. client_host c = Some s \<and> to_string J v = Inr s)) \<and>
      (case if_contains J obj ''service'' of
         None \<Rightarrow> client_service c = None
       | Some v \<Rightarrow> (\<exists>s. client_service c = Some s \<and> to_string J v = Inr s)))"
  unfolding client_fields field_spec to_some_string_Inr eq_False ..

end

section \<open>Properties\<close>

text \<open>\<open>commons\<close> survives the round trip through JSON, the empty members that are left out of the
  document included.\<close>

theorem commons_roundtrip:
  assumes "json_library J"
  shows "commons_of_json J (json_of_commons J c) = Inr c"
  using assms by (rule json_library.commons_back)

theorem commons_roundtrip_witness:
  "commons_of_json reference_json (json_of_commons reference_json \<lparr>app_name = '''', version = ''2.0''\<rparr>) =
     Inr \<lparr>app_name = '''', version = ''2.0''\<rparr> \<and>
   json_of_commons reference_json \<lparr>app_name = '''', version = ''2.0''\<rparr> =
     JObject [(''version'', JString ''2.0'')]"
  using commons_roundtrip [OF refj.json_library_axioms, of "\<lparr>app_name = '''', version = ''2.0''\<rparr>"]
  by (simp add: json_of_commons_def)

text \<open>C15: The settings survive the round trip through JSON exactly when every optional member (the
  server's service, each client's host and service) is present; when one is absent it is
  written as \<open>null\<close> and reading the document back throws.\<close>

theorem settings_roundtrip_iff:
  assumes "json_library J"
  shows "(input_file_of_json J (json_of_input_file J f) = Inr f \<longleftrightarrow> complete_settings f) \<and>
    (isl (input_file_of_json J (json_of_input_file J f)) \<longleftrightarrow> \<not> complete_settings f)"
  using json_library.input_file_back [OF assms, of f] unfolding isl_iff by blast

theorem settings_roundtrip_iff_witness:
  "input_file_of_json reference_json (json_of_input_file reference_json sample_settings) =
     Inr sample_settings \<and>
   isl (input_file_of_json reference_json (json_of_input_file reference_json default_input_file))"
  using settings_roundtrip_iff [OF refj.json_library_axioms, of sample_settings]
    settings_roundtrip_iff [OF refj.json_library_axioms, of default_input_file]
    sample_settings_complete
  by (simp add: default_defs)

text \<open>An empty document gives the default settings, server and client, and each of these, written
  back, is a document the program itself rejects.\<close>

theorem defaults_cannot_be_reread:
  assumes "json_library J"
  shows "input_file_of_json J (of_object J (empty_object J)) = Inr default_input_file \<and>
    server_of_json J (of_object J (empty_object J)) = Inr default_server \<and>
    client_of_json J (of_object J (empty_object J)) = Inr default_client \<and>
    isl (input_file_of_json J (json_of_input_file J default_input_file)) \<and>
    isl (server_of_json J (json_of_server J default_server)) \<and>
    isl (client_of_json J (json_of_client J default_client))"
  using json_library.defaults_read [OF assms]
    json_library.input_file_back [OF assms, of default_input_file]
    json_library.server_back [OF assms, of default_server]
    json_library.client_back [OF assms, of default_client]
  by (simp add: isl_iff default_defs)

theorem defaults_cannot_be_reread_witness:
  "isl (server_of_json reference_json (json_of_server reference_json default_server)) \<and>
   json_of_server reference_json default_server =
     JObject [(''enable'', JBool False), (''name'', JString ''''), (''service'', JNull)]"
  using defaults_cannot_be_reread [OF refj.json_library_axioms]
  by (simp add: json_of_server_def default_defs)

text \<open>What a \<open>client_settings\<close> object may be: each of the four members is absent and takes its
  default, or has the right type and gives its value; anything else, \<open>null\<close> included, is an
  error.\<close>

theorem client_reading_specified:
  assumes "json_library J"
  shows "client_of_json J jv = Inr c \<longleftrightarrow>
    (\<exists>obj. as_object J jv = Inr obj \<and>
      (case if_contains J obj ''enable'' of
         None \<Rightarrow> \<not> client_enable c | Some v \<Rightarrow> to_bool J v = Inr (client_enable c)) \<and>
      (case if_contains J obj ''name'' of
         None \<Rightarrow> client_name c = '''' | Some v \<Rightarrow> to_string J v = Inr (client_name c)) \<and>
      (case if_contains J obj ''host'' of
         None \<Rightarrow> client_host c = None
       | Some v \<Rightarrow> (\<exists>s. client_host c = Some s \<and> to_string J v = Inr s)) \<and>
      (case if_contains J obj ''service'' of
         None \<Rightarrow> client_service c = None
       | Some v \<Rightarrow> (\<exists>s. client_service c = Some s \<and> to_string J v = Inr s)))"
  by (rule json_library.client_reads [OF assms])

theorem client_reading_specified_witness:
  "client_of_json reference_json (JObject [(''name'', JString ''c''), (''host'', JNull)]) \<noteq> Inr default_client"
  using client_reading_specified [OF refj.json_library_axioms, of _ default_client] by simp

text \<open>Members under other keys are ignored, so the client of the shipped \<open>etc/app.jsonc\<close>, which
  gives its peer under \<open>address\<close>, is read without a host.\<close>

theorem shipped_client_has_no_host:
  assumes "json_library J"
  shows "(key \<notin> {''enable'', ''name'', ''host'', ''service''} \<longrightarrow>
      client_of_json J (of_object J (set_key J key v obj)) = client_of_json J (of_object J obj)) \<and>
    (\<exists>f. input_file_of_json J (shipped_configuration J) = Inr f \<and>
      app_name (file_commons f) = ''My App'' \<and>
      clients (file_communications f) =
        [\<lparr>client_enable = True, client_name = ''Client A'', client_host = None,
          client_service = Some ''8080''\<rparr>])"
  using json_library.client_other_key [OF assms, of key v obj] json_library.shipped_read [OF assms]
  by simp

theorem shipped_client_has_no_host_witness:
  "\<exists>f. input_file_of_json reference_json (shipped_configuration reference_json) = Inr f \<and>
     map client_host (clients (file_communications f)) = [None]"
  using shipped_client_has_no_host [OF refj.json_library_axioms, of "''x''"] by fastforce

end
