(* ===== verification/Json_Text.thy ===== *)
theory Json_Text
  imports Json_Interface
begin

text \<open>
  Parsing and serializing JSON text, which Boost.JSON does: a parameter \<open>T\<close> with the contract
  the round trip of the settings file needs, within the limits of the parser, and a printer and
  parser with these limits for the reference documents that satisfy it.
\<close>

section \<open>UTF-8\<close>

text \<open>Which byte strings are UTF-8 (RFC 3629): the ranges of the bytes that must follow a first byte,
  and an automaton that keeps the ranges still expected.\<close>

definition utf8_lead :: "nat \<Rightarrow> (nat \<times> nat) list option" where
  "utf8_lead a =
     (let c = (128, 191) in
      if a < 128 then Some []
      else if a < 194 then None
      else if a < 224 then Some [c]
      else if a = 224 then Some [(160, 191), c]
      else if a = 237 then Some [(128, 159), c]
      else if a < 240 then Some [c, c]
      else if a = 240 then Some [(144, 191), c, c]
      else if a < 244 then Some [c, c, c]
      else if a = 244 then Some [(128, 143), c, c]
      else None)"

fun utf8_from :: "(nat \<times> nat) list \<Rightarrow> nat list \<Rightarrow> bool" where
  "utf8_from [] [] = True"
| "utf8_from (_ # _) [] = False"
| "utf8_from [] (a # as) = (case utf8_lead a of None \<Rightarrow> False | Some expected \<Rightarrow> utf8_from expected as)"
| "utf8_from ((lo, hi) # expected) (a # as) = (lo \<le> a \<and> a \<le> hi \<and> utf8_from expected as)"

definition valid_utf8 :: "string \<Rightarrow> bool" where
  "valid_utf8 s = utf8_from [] (map of_char s)"

lemma ascii_valid_utf8: "list_all (\<lambda>c. (of_char c :: nat) < 128) s \<Longrightarrow> valid_utf8 s"
  by (induction s) (simp_all add: valid_utf8_def utf8_lead_def)

section \<open>The interface\<close>

record parse_options =
  allow_comments :: bool
  allow_trailing_commas :: bool

record 'j json_text =
  parse :: "string \<Rightarrow> parse_options \<Rightarrow> lib_exn + 'j"
  serialize :: "'j \<Rightarrow> string"

definition utf8_bom :: string where
  "utf8_bom = utf8 [239, 187, 191]"

lemma utf8_bom_chars: "utf8_bom = [CHR 0xEF, CHR 0xBB, CHR 0xBF]"
  by (simp add: utf8_bom_def utf8_def char_of_eq_iff take_bit_eq_mod)

text \<open>
  A serialized value parses back to it, under any of the two options, within the limits the
  parser has by default: arrays and objects nested at most 32 deep, and strings in UTF-8.
  \<open>plain n j\<close> says that \<open>j\<close> is made of the constructors below, nested at most \<open>n\<close> deep, with
  such strings; \<open>plain_members n obj\<close> the same of an object's members.
\<close>

locale text_roundtrip =
  fixes J :: "('j, 'o) json_api" and T :: "'j json_text"
    and plain :: "nat \<Rightarrow> 'j \<Rightarrow> bool" and plain_members :: "nat \<Rightarrow> 'o \<Rightarrow> bool"
  assumes plain_bool: "plain n (of_bool_value J b)"
    and plain_string: "valid_utf8 s \<Longrightarrow> plain n (of_string J s)"
    and plain_null: "plain n (of_optional J None)"
    and plain_some: "valid_utf8 s \<Longrightarrow> plain n (of_optional J (Some s))"
    and plain_array: "list_all (plain n) vs \<Longrightarrow> plain (Suc n) (of_array J vs)"
    and plain_object: "plain_members n obj \<Longrightarrow> plain (Suc n) (of_object J obj)"
    and plain_empty: "plain_members n (empty_object J)"
    and plain_member: "plain_members n obj \<Longrightarrow> valid_utf8 key \<Longrightarrow> plain n v \<Longrightarrow>
      plain_members n (set_key J key v obj)"
    and parse_serialize: "plain 32 j \<Longrightarrow> parse T (serialize T j) opt = Inr j"
    and serialize_no_bom: "plain 32 j \<Longrightarrow> serialize T j \<noteq> utf8_bom @ rest"
begin

lemma serialize_inject:
  "plain 32 i \<Longrightarrow> plain 32 j \<Longrightarrow> serialize T i = serialize T j \<longleftrightarrow> i = j"
  using parse_serialize by (metis sum.inject(2))

end

section \<open>A printer and parser for the reference documents\<close>

text \<open>Strings are quoted, with a backslash before a quote or a backslash; arrays and objects have a
  comma after every element.\<close>

fun put_string :: "string \<Rightarrow> string" where
  "put_string [] = [CHR 0x22]"
| "put_string (c # cs) =
     (if c = CHR 0x22 \<or> c = CHR 0x5C then CHR 0x5C # c # put_string cs else c # put_string cs)"

fun get_string :: "string \<Rightarrow> (string \<times> string) option" where
  "get_string [] = None"
| "get_string (c # r) =
     (if c = CHR 0x22 then Some ([], r)
      else if c = CHR 0x5C then
        (case r of [] \<Rightarrow> None | d # r' \<Rightarrow> map_option (\<lambda>(s, t). (d # s, t)) (get_string r'))
      else map_option (\<lambda>(s, t). (c # s, t)) (get_string r))"

lemma get_put_string: "get_string (put_string s @ r) = Some (s, r)"
  by (induction s) auto

fun print_json :: "json \<Rightarrow> string"
  and print_items :: "json list \<Rightarrow> string"
  and print_members :: "(string \<times> json) list \<Rightarrow> string" where
  "print_json JNull = ''n''"
| "print_json (JBool b) = (if b then ''t'' else ''f'')"
| "print_json (JString s) = CHR 0x22 # put_string s"
| "print_json (JArray vs) = CHR ''['' # print_items vs"
| "print_json (JObject ms) = CHR ''{'' # print_members ms"
| "print_items [] = '']''"
| "print_items (v # vs) = print_json v @ '','' @ print_items vs"
| "print_members [] = ''}''"
| "print_members ((k, v) # ms) = CHR 0x22 # put_string k @ print_json v @ '','' @ print_members ms"

fun parse_json :: "nat \<Rightarrow> string \<Rightarrow> (json \<times> string) option"
  and parse_items :: "nat \<Rightarrow> string \<Rightarrow> (json list \<times> string) option"
  and parse_members :: "nat \<Rightarrow> string \<Rightarrow> ((string \<times> json) list \<times> string) option" where
  "parse_json 0 s = None"
| "parse_json (Suc n) s =
     (case s of
        [] \<Rightarrow> None
      | c # r \<Rightarrow>
        if c = CHR ''n'' then Some (JNull, r)
        else if c = CHR ''t'' then Some (JBool True, r)
        else if c = CHR ''f'' then Some (JBool False, r)
        else if c = CHR 0x22 then map_option (\<lambda>(t, r). (JString t, r)) (get_string r)
        else if c = CHR ''['' then map_option (\<lambda>(vs, r). (JArray vs, r)) (parse_items n r)
        else if c = CHR ''{'' then map_option (\<lambda>(ms, r). (JObject ms, r)) (parse_members n r)
        else None)"
| "parse_items 0 s = None"
| "parse_items (Suc n) s =
     (if take 1 s = '']'' then Some ([], drop 1 s)
      else case parse_json n s of
        None \<Rightarrow> None
      | Some (v, r) \<Rightarrow>
          if take 1 r = '','' then map_option (\<lambda>(vs, r). (v # vs, r)) (parse_items n (drop 1 r))
          else None)"
| "parse_members 0 s = None"
| "parse_members (Suc n) s =
     (if take 1 s = ''}'' then Some ([], drop 1 s)
      else if take 1 s = [CHR 0x22] then
        (case get_string (drop 1 s) of
           None \<Rightarrow> None
         | Some (k, r) \<Rightarrow>
             (case parse_json n r of
                None \<Rightarrow> None
              | Some (v, r) \<Rightarrow>
                  if take 1 r = '',''
                  then map_option (\<lambda>(ms, r). ((k, v) # ms, r)) (parse_members n (drop 1 r))
                  else None))
      else None)"

text \<open>The limits of the parser.\<close>

fun within :: "nat \<Rightarrow> json \<Rightarrow> bool" where
  "within n JNull = True"
| "within n (JBool b) = True"
| "within n (JString s) = valid_utf8 s"
| "within 0 (JArray vs) = False"
| "within (Suc n) (JArray vs) = list_all (within n) vs"
| "within 0 (JObject ms) = False"
| "within (Suc n) (JObject ms) = list_all (\<lambda>(k, v). valid_utf8 k \<and> within n v) ms"

abbreviation within_members :: "nat \<Rightarrow> (string \<times> json) list \<Rightarrow> bool" where
  "within_members n ms \<equiv> list_all (\<lambda>(k, v). valid_utf8 k \<and> within n v) ms"

lemma within_numeral [simp]:
  "within (numeral m) (JArray vs) = list_all (within (pred_numeral m)) vs"
  "within (numeral m) (JObject ms) = within_members (pred_numeral m) ms"
  by (simp_all add: numeral_eq_Suc)

lemma within_assign_member:
  "within_members n ms \<Longrightarrow> valid_utf8 k \<Longrightarrow> within n v \<Longrightarrow> within_members n (assign_member k v ms)"
  by (induction ms) auto

definition reference_text :: "json json_text" where
  "reference_text =
     \<lparr>parse = (\<lambda>s opt. case parse_json (length s) s of
          Some (j, []) \<Rightarrow> if within 32 j then Inr j else Inl (json_error ''beyond the limits'')
        | _ \<Rightarrow> Inl (json_error ''syntax error'')),
      serialize = print_json\<rparr>"

lemma print_json_head:
  "\<exists>c r. print_json j = c # r \<and> c \<in> set ''ntf[{'' \<union> {CHR 0x22}"
  by (cases j) auto

lemma take_1_print_json: "take 1 (print_json j @ r) \<noteq> '']''"
  using print_json_head [of j] by auto

lemma Suc_le_cases:
  assumes "Suc m \<le> n"
  obtains k where "n = Suc k" and "m \<le> k"
  using assms by (cases n) auto

text \<open>The length of the text is fuel enough.\<close>

lemma parse_print:
  "length (print_json j) \<le> n \<Longrightarrow> parse_json n (print_json j @ r) = Some (j, r)"
  "length (print_items vs) \<le> n \<Longrightarrow> parse_items n (print_items vs @ r) = Some (vs, r)"
  "length (print_members ms) \<le> n \<Longrightarrow> parse_members n (print_members ms @ r) = Some (ms, r)"
proof (induction j and vs and ms arbitrary: n r and n r and n r
    rule: print_json_print_items_print_members.induct)
  case (7 v vs)
  then obtain m where n: "n = Suc m" by (cases n) auto
  have "parse_json m (print_json v @ CHR '','' # print_items vs @ r) =
      Some (v, CHR '','' # print_items vs @ r)"
    using "7.IH"(1) "7.prems" n by simp
  moreover have "parse_items m (print_items vs @ r) = Some (vs, r)"
    using "7.IH"(2) "7.prems" n by simp
  ultimately show ?case
    using n take_1_print_json [of v "CHR '','' # print_items vs @ r"] by simp
next
  case (9 k v ms)
  then obtain m where n: "n = Suc m" by (cases n) auto
  have "parse_json m (print_json v @ CHR '','' # print_members ms @ r) =
      Some (v, CHR '','' # print_members ms @ r)"
    using "9.IH"(1) "9.prems" n by simp
  moreover have "parse_members m (print_members ms @ r) = Some (ms, r)"
    using "9.IH"(2) "9.prems" n by simp
  ultimately show ?case
    using n by (simp add: get_put_string)
qed (auto simp: get_put_string elim!: Suc_le_cases)

interpretation reft: text_roundtrip reference_json reference_text within within_members
proof unfold_locales
  show "within 32 j \<Longrightarrow> parse reference_text (serialize reference_text j) opt = Inr j" for j opt
    using parse_print(1) [of j "length (print_json j)" "[]"] by (simp add: reference_text_def)
  show "within 32 j \<Longrightarrow> serialize reference_text j \<noteq> utf8_bom @ rest" for j rest
    using print_json_head [of j] by (auto simp: reference_text_def utf8_bom_chars)
qed (simp_all add: within_assign_member)

end
