(* ===== verification/Logging.thy ===== *)
theory Logging
  imports Exceptions
begin

text \<open>
  Log records and the two sinks \<open>init_logging\<close> of \<open>src/main.cpp\<close> installs.  Boost.Log itself is
  not modelled: a record is its severity and its text, and a sink keeps the records its filter
  lets through.
\<close>

datatype severity = Trace | Debug | Info | Warning | Error | Fatal

fun severity_rank :: "severity \<Rightarrow> nat" where
  "severity_rank Trace = 0"
| "severity_rank Debug = 1"
| "severity_rank Info = 2"
| "severity_rank Warning = 3"
| "severity_rank Error = 4"
| "severity_rank Fatal = 5"

lemma severity_rank_inject: "severity_rank a = severity_rank b \<longleftrightarrow> a = b"
  by (cases a; cases b) simp_all

instantiation severity :: linorder
begin

definition less_eq_severity :: "severity \<Rightarrow> severity \<Rightarrow> bool" where
  "a \<le> b \<longleftrightarrow> severity_rank a \<le> severity_rank b"

definition less_severity :: "severity \<Rightarrow> severity \<Rightarrow> bool" where
  "a < b \<longleftrightarrow> severity_rank a < severity_rank b"

instance
  by intro_classes
    (auto simp: less_eq_severity_def less_severity_def simp flip: severity_rank_inject)

end

lemmas severity_order = less_eq_severity_def less_severity_def

lemma Trace_le [simp]: "Trace \<le> s"
  by (simp add: less_eq_severity_def)

type_synonym log_record = "severity \<times> string"

text \<open>What a sink with the filter \<open>severity >= least\<close> writes of a sequence of records.\<close>

definition sink_records :: "severity \<Rightarrow> log_record list \<Rightarrow> log_record list" where
  "sink_records least rs = filter (\<lambda>(s, text). s \<ge> least) rs"

definition console_least :: severity where
  "console_least = Info"

definition file_least :: severity where
  "file_least = Trace"

lemma file_sink_keeps_all [simp]: "sink_records file_least rs = rs"
  by (induction rs) (auto simp: sink_records_def file_least_def)

lemma console_drops_debug [simp]:
  "sink_records console_least ((Debug, m) # rs) = sink_records console_least rs"
  by (simp add: sink_records_def console_least_def less_eq_severity_def)

end
