(* ===== verification/Options.thy ===== *)
theory Options
  imports Settings Json_Text Logging
begin

text \<open>
  Reading the input file into the settings singleton, \<open>core::settings::options\<close>
  (\<open>libs/core/include/core/settings/options.hpp\<close>, \<open>libs/core/src/settings/options.cpp\<close>).  Paths,
  the file system and the JSON parser are parameters.
\<close>

section \<open>What the code calls\<close>

record 'p path_api =
  path_string :: "'p \<Rightarrow> string"
  extension :: "'p \<Rightarrow> 'p"
  parent_path :: "'p \<Rightarrow> 'p"

text \<open>\<open>open_file name\<close> is an \<open>ifstream\<close> on the file: the \<open>errno\<close> of a failed open, or the reading of
  the whole stream, which may throw.  \<open>system_what\<close> is the text of a \<open>system_error\<close> of the
  generic category with the given code and message.\<close>

record file_api =
  open_file :: "string \<Rightarrow> int + (lib_exn + string)"
  system_what :: "int \<Rightarrow> string \<Rightarrow> string"

section \<open>State and helpers\<close>

record 'p options =
  input_file_path :: 'p
  input_file_member :: input_file

text \<open>The instance before anything is read, given the empty path; \<open>instance()\<close>; and what \<open>input_file()\<close> hands out.\<close>

definition new_options :: "'p \<Rightarrow> 'p options" where
  "new_options empty_path = \<lparr>input_file_path = empty_path, input_file_member = default_input_file\<rparr>"

definition options_instance :: "'p \<Rightarrow> 'p options option \<Rightarrow> 'p options" where
  "options_instance empty_path slot = get_mutable_instance (new_options empty_path) slot"

definition options_input_file :: "'p options \<Rightarrow> input_file" where
  "options_input_file st = input_file_member st"

text \<open>\<open>std::tolower\<close> on one byte, in the default locale of a program that sets none.\<close>

definition tolower :: "char \<Rightarrow> char" where
  "tolower c = (let n = of_char c :: nat in if 65 \<le> n \<and> n \<le> 90 then char_of (n + 32) else c)"

definition to_lower_copy :: "string \<Rightarrow> string" where
  "to_lower_copy text = map tolower text"

definition is_jsonc_path :: "('p, 'x) path_api_scheme \<Rightarrow> 'p \<Rightarrow> bool" where
  "is_jsonc_path F path \<longleftrightarrow> to_lower_copy (path_string F (extension F path)) = ''.jsonc''"

definition strip_bom :: "string \<Rightarrow> string" where
  "strip_bom input_text =
     (if length input_text \<ge> 3 \<and> input_text ! 0 = char_of (239 :: nat) \<and>
         input_text ! 1 = char_of (187 :: nat) \<and> input_text ! 2 = char_of (191 :: nat)
      then drop 3 input_text else input_text)"

definition msg_open_failed :: string where
  "msg_open_failed = 
     utf8 [227, 131, 149, 227, 130, 161, 227, 130, 164, 227, 131, 171, 227, 130, 146, 233, 150,
       139, 227, 129, 145, 227, 129, 190, 227, 129, 155, 227, 130, 147, 227, 129, 167, 227,
       129, 151, 227, 129, 159]"

definition msg_unknown_exception :: string where
  "msg_unknown_exception = 
     utf8 [228, 184, 141, 230, 152, 142, 227, 129, 170, 228, 190, 139, 229, 164, 150, 227, 129,
       140, 231, 153, 186, 231, 148, 159, 227, 129, 151, 227, 129, 190, 227, 129, 151, 227,
       129, 159]"

definition msg_file_read :: string where
  "msg_file_read =
     utf8 [229, 133, 165, 229, 138, 155, 227, 131, 149, 227, 130, 161, 227, 130, 164, 227, 131,
       171, 227, 130, 146, 232, 170, 173, 227, 129, 191, 232, 190, 188, 227, 129, 191, 227,
       129, 190, 227, 129, 151, 227, 129, 159, 227, 128, 130] @ '': ''"

section \<open>Reading the input file\<close>

text \<open>The body of the \<open>try\<close> block: its result, the state it leaves and the records it logs.\<close>

definition read_body ::
    "('p, 'x) path_api_scheme \<Rightarrow> file_api \<Rightarrow> ('j, 'o) json_api \<Rightarrow> 'j json_text \<Rightarrow> 'p \<Rightarrow> 'p options \<Rightarrow>
     (lib_exn + unit) \<times> 'p options \<times> log_record list" where
  "read_body F S J T path st =
     (let st = st\<lparr>input_file_path := path\<rparr>
      in case open_file S (path_string F (input_file_path st)) of
        Inl errno \<Rightarrow>
          (Inl (Std_exn System_error True (system_what S errno msg_open_failed)), st, [])
      | Inr (Inl e) \<Rightarrow> (Inl e, st, [])
      | Inr (Inr input_text) \<Rightarrow>
        let opt = \<lparr>allow_comments = is_jsonc_path F (input_file_path st),
                   allow_trailing_commas = True\<rparr>
        in case bind_res (parse T (strip_bom input_text) opt) (input_file_of_json J) of
          Inl e \<Rightarrow> (Inl e, st, [])
        | Inr f \<Rightarrow>
          let st = st\<lparr>input_file_member :=
                resolve_input_file (parent_path F (input_file_path st)) f\<rparr>
          in (Inr (), st,
              [(Debug, msg_file_read @ serialize T (json_of_input_file J (input_file_member st)))]))"

text \<open>The two handlers turn every exception into a \<open>my_error\<close>.\<close>

fun wrap_exception :: "string \<Rightarrow> lib_exn \<Rightarrow> exn" where
  "wrap_exception path_text (Std_exn c b w) =
     My_error \<lparr>errinfo_path = Some path_text, errinfo_errno = None,
               errinfo_message = Some (c_str w)\<rparr> None"
| "wrap_exception path_text (Foreign_exn b) =
     My_error \<lparr>errinfo_path = Some path_text, errinfo_errno = None,
               errinfo_message = Some msg_unknown_exception\<rparr> None"

definition read_input_file ::
    "('p, 'x) path_api_scheme \<Rightarrow> file_api \<Rightarrow> ('j, 'o) json_api \<Rightarrow> 'j json_text \<Rightarrow> 'p \<Rightarrow> 'p options \<Rightarrow>
     (exn + unit) \<times> 'p options \<times> log_record list" where
  "read_input_file F S J T path st =
     (case read_body F S J T path st of
        (Inl e, st', logs) \<Rightarrow> (Inl (wrap_exception (path_string F path) e), st', logs)
      | (Inr _, st', logs) \<Rightarrow> (Inr (), st', logs))"

section \<open>Helper facts\<close>

lemma strip_bom_bom: "strip_bom (utf8_bom @ text) = text"
  by (simp add: strip_bom_def utf8_bom_def utf8_def)

lemma strip_bom_other: "\<not> (\<exists>rest. text = utf8_bom @ rest) \<Longrightarrow> strip_bom text = text"
proof (rule ccontr)
  assume no: "\<not> (\<exists>rest. text = utf8_bom @ rest)" and ne: "strip_bom text \<noteq> text"
  then have "length text \<ge> 3" and b: "text ! 0 = char_of (239 :: nat)"
    "text ! 1 = char_of (187 :: nat)" "text ! 2 = char_of (191 :: nat)"
    by (auto simp: strip_bom_def split: if_splits)
  then obtain x y z rest where "text = x # y # z # rest"
    by (auto simp: numeral_3_eq_3 Suc_le_length_iff)
  with b have "text = utf8_bom @ rest" by (simp add: utf8_bom_def utf8_def)
  with no show False by blast
qed

lemma wrap_exception_form:
  "\<exists>msg. wrap_exception t e = My_error \<lparr>errinfo_path = Some t, errinfo_errno = None,
     errinfo_message = Some msg\<rparr> None"
  by (cases e) auto

lemma read_body_ok:
  assumes "open_file S (path_string F path) = Inr (Inr text)"
    and "parse T (strip_bom text) \<lparr>allow_comments = is_jsonc_path F path, allow_trailing_commas = True\<rparr> = Inr jv"
    and "input_file_of_json J jv = Inr f"
  shows "read_body F S J T path st =
    (Inr (), \<lparr>input_file_path = path, input_file_member = f\<rparr>,
     [(Debug, msg_file_read @ serialize T (json_of_input_file J f))])"
  using assms by (cases st) (simp add: read_body_def Let_def)

lemma char_eq_nat: "c = d \<longleftrightarrow> (of_char c :: nat) = of_char d"
  by simp

lemma of_char_tolower:
  "(of_char (tolower c) :: nat) =
     (if 65 \<le> (of_char c :: nat) \<and> (of_char c :: nat) \<le> 90 then of_char c + 32 else of_char c)"
  by (simp add: tolower_def Let_def)

lemma letters_nat:
  "(of_char (CHR ''.'') :: nat) = 46"
  "(of_char (CHR ''j'') :: nat) = 106" "(of_char (CHR ''J'') :: nat) = 74"
  "(of_char (CHR ''s'') :: nat) = 115" "(of_char (CHR ''S'') :: nat) = 83"
  "(of_char (CHR ''o'') :: nat) = 111" "(of_char (CHR ''O'') :: nat) = 79"
  "(of_char (CHR ''n'') :: nat) = 110" "(of_char (CHR ''N'') :: nat) = 78"
  "(of_char (CHR ''c'') :: nat) = 99" "(of_char (CHR ''C'') :: nat) = 67"
  by simp_all

lemma tolower_letters:
  "tolower c = CHR ''.'' \<longleftrightarrow> c = CHR ''.''"
  "tolower c = CHR ''j'' \<longleftrightarrow> c \<in> set ''jJ''"
  "tolower c = CHR ''s'' \<longleftrightarrow> c \<in> set ''sS''"
  "tolower c = CHR ''o'' \<longleftrightarrow> c \<in> set ''oO''"
  "tolower c = CHR ''n'' \<longleftrightarrow> c \<in> set ''nN''"
  "tolower c = CHR ''c'' \<longleftrightarrow> c \<in> set ''cC''"
  unfolding list.set insert_iff empty_iff char_eq_nat of_char_tolower letters_nat
  by (auto split: if_splits)

text \<open>What it takes for settings to come from a file, and every way a reading ends.\<close>

definition read_from ::
    "('p, 'x) path_api_scheme \<Rightarrow> file_api \<Rightarrow> ('j, 'o) json_api \<Rightarrow> 'j json_text \<Rightarrow> 'p \<Rightarrow> input_file \<Rightarrow> bool" where
  "read_from F S J T path f \<longleftrightarrow>
     (\<exists>text jv. open_file S (path_string F path) = Inr (Inr text) \<and>
        parse T (strip_bom text)
          \<lparr>allow_comments = is_jsonc_path F path, allow_trailing_commas = True\<rparr> = Inr jv \<and>
        input_file_of_json J jv = Inr f)"

lemma read_input_file_cases:
  "case read_input_file F S J T path st of (r, st', logs) \<Rightarrow>
     input_file_path st' = path \<and>
     (case r of
        Inl e \<Rightarrow>
          (\<exists>msg. e = My_error \<lparr>errinfo_path = Some (path_string F path), errinfo_errno = None,
             errinfo_message = Some msg\<rparr> None) \<and>
          input_file_member st' = input_file_member st \<and> logs = []
      | Inr _ \<Rightarrow>
          read_from F S J T path (input_file_member st') \<and>
          logs = [(Debug, msg_file_read @ serialize T (json_of_input_file J (input_file_member st')))])"
  using wrap_exception_form unfolding read_from_def
  by (auto simp: read_input_file_def read_body_def Let_def bind_res_Inr_iff
      split: sum.split prod.split)

section \<open>Reading again\<close>

text \<open>Several readings in turn, each of a path in the file system of its moment; the caller catches
  the exceptions.\<close>

fun read_many ::
    "('p, 'x) path_api_scheme \<Rightarrow> ('j, 'o) json_api \<Rightarrow> 'j json_text \<Rightarrow> ('p \<times> file_api) list \<Rightarrow> 'p options \<Rightarrow>
     (exn + unit) list \<times> 'p options" where
  "read_many F J T [] st = ([], st)"
| "read_many F J T ((path, S) # reads) st =
     (let (r, st1, logs) = read_input_file F S J T path st;
          (rs, st2) = read_many F J T reads st1
      in (r # rs, st2))"

lemma read_many_snoc:
  "read_many F J T (reads @ [(path, S)]) st =
    (let (rs, st1) = read_many F J T reads st; (r, st2, logs) = read_input_file F S J T path st1
     in (rs @ [r], st2))"
  by (induction reads arbitrary: st) (auto simp: Let_def split: prod.splits)

lemma length_read_many: "read_many F J T reads st = (rs, st') \<Longrightarrow> length rs = length reads"
  by (induction reads arbitrary: st rs) (auto simp: Let_def split: prod.splits)

section \<open>Writing settings\<close>

text \<open>The strings settings hold.  Settings nest four deep, well within the limit of the parser.\<close>

fun client_strings :: "client_settings \<Rightarrow> string list" where
  "client_strings c =
     client_name c # case_option [] (\<lambda>s. [s]) (client_host c) @ case_option [] (\<lambda>s. [s]) (client_service c)"

definition settings_strings :: "input_file \<Rightarrow> string list" where
  "settings_strings f =
     (let c = file_commons f; m = file_communications f
      in app_name c # version c # server_name (server m) #
         case_option [] (\<lambda>s. [s]) (server_service (server m)) @ concat (map client_strings (clients m)))"

lemma keys_valid_utf8 [simp]:
  "valid_utf8 ''appName''" "valid_utf8 ''version''" "valid_utf8 ''enable''" "valid_utf8 ''name''"
  "valid_utf8 ''host''" "valid_utf8 ''service''" "valid_utf8 ''server''" "valid_utf8 ''clients''"
  "valid_utf8 ''commons''" "valid_utf8 ''communications''"
  by (rule ascii_valid_utf8; simp)+

lemma list_all_concat: "list_all P (concat xss) = list_all (list_all P) xss"
  by (induction xss) simp_all

context text_roundtrip
begin

lemmas plain_intros = plain_bool plain_string plain_null plain_some plain_array plain_object
  plain_empty plain_member

lemma plain_optional: "list_all valid_utf8 (case_option [] (\<lambda>s. [s]) x) \<Longrightarrow> plain n (of_optional J x)"
  by (cases x) (simp_all add: plain_null plain_some)

lemma plain_client:
  "list_all valid_utf8 (client_strings c) \<Longrightarrow> plain (Suc n) (json_of_client J c)"
  by (simp add: json_of_client_def Let_def plain_intros plain_optional)

lemma plain_settings:
  assumes "list_all valid_utf8 (settings_strings f)"
  shows "plain (Suc (Suc (Suc (Suc n)))) (json_of_input_file J f)"
proof -
  let ?c = "file_commons f" and ?m = "file_communications f"
  note valid = assms [unfolded settings_strings_def Let_def]
  have "plain (Suc (Suc (Suc n))) (json_of_commons J ?c)"
    using valid by (simp add: json_of_commons_def Let_def plain_intros)
  moreover have "plain (Suc (Suc n)) (json_of_server J (server ?m))"
    using valid by (simp add: json_of_server_def Let_def plain_intros plain_optional)
  moreover have "list_all (\<lambda>c. list_all valid_utf8 (client_strings c)) (clients ?m)"
    using valid by (simp add: list_all_concat list.pred_map comp_def del: client_strings.simps)
  then have "list_all (plain (Suc n)) (map (json_of_client J) (clients ?m))"
    by (auto simp: list.pred_map comp_def simp del: client_strings.simps
        elim!: list.pred_mono_strong intro: plain_client)
  ultimately show ?thesis
    by (simp add: json_of_input_file_def json_of_communications_def Let_def plain_intros)
qed

end

section \<open>An example environment\<close>

text \<open>Paths that are plain strings, and a file system with one readable file.\<close>

definition plain_paths :: "string path_api" where
  "plain_paths =
     \<lparr>path_string = id,
      extension = (\<lambda>p. if CHR ''.'' \<in> set p
        then CHR ''.'' # rev (takeWhile (\<lambda>c. c \<noteq> CHR ''.'') (rev p)) else []),
      parent_path = (\<lambda>p. rev (tl (dropWhile (\<lambda>c. c \<noteq> CHR ''/'') (rev p))))\<rparr>"

definition one_file :: "string \<Rightarrow> string \<Rightarrow> file_api" where
  "one_file name contents =
     \<lparr>open_file = (\<lambda>n. if n = name then Inr (Inr contents) else Inl 2),
      system_what = (\<lambda>errno msg. msg)\<rparr>"

section \<open>Properties\<close>

text \<open>C14: Every way \<open>read_input_file\<close> ends.  The path is stored at once, even on failure.  A failure
  of any kind is a \<open>my_error\<close> that names the path and carries a message, changes no settings and
  logs nothing.  Success means the file was opened and read, its text without the byte order
  mark was parsed, with comments allowed just for \<open>.jsonc\<close> and trailing commas always, and its
  settings are now held and logged.\<close>

theorem read_input_file_outcome:
  "case read_input_file F S J T path st of (r, st', logs) \<Rightarrow>
     input_file_path st' = path \<and>
     (case r of
        Inl e \<Rightarrow>
          (\<exists>msg. e = My_error \<lparr>errinfo_path = Some (path_string F path), errinfo_errno = None,
             errinfo_message = Some msg\<rparr> None) \<and>
          input_file_member st' = input_file_member st \<and> logs = []
      | Inr _ \<Rightarrow>
          \<exists>text jv. open_file S (path_string F path) = Inr (Inr text) \<and>
            parse T (strip_bom text)
              \<lparr>allow_comments = is_jsonc_path F path, allow_trailing_commas = True\<rparr> = Inr jv \<and>
            input_file_of_json J jv = Inr (input_file_member st') \<and>
            logs = [(Debug, msg_file_read @ serialize T (json_of_input_file J (input_file_member st')))])"
  using read_input_file_cases [where F = F and S = S and J = J and T = T and path = path and st = st] unfolding read_from_def
  by (auto split: sum.splits)

text \<open>A UTF-8 byte order mark at the start of the file changes nothing: the file with the mark and
  the one without are read alike.\<close>

theorem byte_order_mark_ignored:
  assumes "open_file S (path_string F path) = Inr (Inr (utf8_bom @ text))"
    and "open_file S' (path_string F path) = Inr (Inr text)"
    and "\<not> (\<exists>rest. text = utf8_bom @ rest)"
  shows "read_input_file F S J T path st = read_input_file F S' J T path st"
  using assms(1,2) strip_bom_other [OF assms(3)]
  by (simp add: read_input_file_def read_body_def Let_def strip_bom_bom)

theorem byte_order_mark_ignored_witness:
  "read_input_file plain_paths (one_file ''a.jsonc'' (utf8_bom @ ''{}'')) reference_json reference_text
      ''a.jsonc'' \<lparr>input_file_path = '''', input_file_member = default_input_file\<rparr> =
   read_input_file plain_paths (one_file ''a.jsonc'' ''{}'') reference_json reference_text
      ''a.jsonc'' \<lparr>input_file_path = '''', input_file_member = default_input_file\<rparr>"
proof (rule byte_order_mark_ignored)
  show "\<not> (\<exists>rest. ''{}'' = utf8_bom @ rest)"
    unfolding utf8_bom_chars by auto
qed (simp_all add: one_file_def plain_paths_def)

text \<open>The comment syntax is switched on by the extension \<open>.jsonc\<close> in any mix of upper and lower
  case, and by nothing else.\<close>

theorem jsonc_in_any_case:
  "is_jsonc_path F path \<longleftrightarrow>
    path_string F (extension F path) \<in>
      {''.'' @ [j, s, o', n, c] | j s o' n c.
        j \<in> set ''jJ'' \<and> s \<in> set ''sS'' \<and> o' \<in> set ''oO'' \<and> n \<in> set ''nN'' \<and> c \<in> set ''cC''}"
  unfolding is_jsonc_path_def to_lower_copy_def
  by (auto simp: map_eq_Cons_conv tolower_letters simp del: list.set)

text \<open>C35: A file that holds settings the program has serialized itself, all their strings in UTF-8, with
  or without a byte order mark, is read back to the same settings exactly when every optional
  member was present; otherwise reading it fails and the old settings stay.  The settings keep
  within the nesting the parser accepts.\<close>

theorem written_settings_reread_iff:
  assumes "json_library J" and "text_roundtrip J T plain plain_members"
    and "list_all valid_utf8 (settings_strings f)"
    and "text = serialize T (json_of_input_file J f)"
    and "open_file S (path_string F path) = Inr (Inr (if marked then utf8_bom @ text else text))"
    and "read_input_file F S J T path st = (r, st', logs)"
  shows "(complete_settings f \<longrightarrow> r = Inr () \<and> input_file_member st' = f) \<and>
    (\<not> complete_settings f \<longrightarrow> isl r \<and> input_file_member st' = input_file_member st)"
proof -
  let ?opt = "\<lparr>allow_comments = is_jsonc_path F path, allow_trailing_commas = True\<rparr>"
  have plain: "plain 32 (json_of_input_file J f)"
    using text_roundtrip.plain_settings [OF assms(2,3), of 28] by (simp add: eval_nat_numeral)
  have "strip_bom (if marked then utf8_bom @ text else text) = text"
    using strip_bom_other [of "text"] text_roundtrip.serialize_no_bom [OF assms(2) plain] assms(4)
    by (auto simp: strip_bom_bom)
  then have parsed: "parse T (strip_bom (if marked then utf8_bom @ text else text)) ?opt =
      Inr (json_of_input_file J f)"
    using text_roundtrip.parse_serialize [OF assms(2) plain] assms(4) by simp
  show ?thesis
  proof (cases "input_file_of_json J (json_of_input_file J f)")
    case (Inl e)
    then have "\<not> complete_settings f"
      using json_library.input_file_back [OF assms(1), of f f] by auto
    moreover from Inl parsed assms(5,6) have "isl r \<and> input_file_member st' = input_file_member st"
      by (auto simp: read_input_file_def read_body_def Let_def)
    ultimately show ?thesis by blast
  next
    case (Inr f')
    then have "complete_settings f" and "f' = f"
      using json_library.input_file_back [OF assms(1), of f f'] by auto
    with read_body_ok [OF assms(5) parsed Inr, of st] assms(6) show ?thesis
      by (auto simp: read_input_file_def)
  qed
qed

theorem written_settings_reread_iff_witness:
  "\<exists>st' logs.
     read_input_file plain_paths
       (one_file ''a.json''
         (utf8_bom @ serialize reference_text (json_of_input_file reference_json sample_settings)))
       reference_json reference_text ''a.json''
       \<lparr>input_file_path = '''', input_file_member = default_input_file\<rparr> = (Inr (), st', logs) \<and>
     input_file_member st' = sample_settings"
proof -
  let ?text = "serialize reference_text (json_of_input_file reference_json sample_settings)"
  let ?S = "one_file ''a.json'' (utf8_bom @ ?text)"
  obtain r st' logs where run: "read_input_file plain_paths ?S reference_json reference_text ''a.json''
      \<lparr>input_file_path = '''', input_file_member = default_input_file\<rparr> = (r, st', logs)"
    by (metis surj_pair)
  have "open_file ?S (path_string plain_paths ''a.json'') =
      Inr (Inr (if True then utf8_bom @ ?text else ?text))"
    by (simp add: one_file_def plain_paths_def)
  have "list_all valid_utf8 (settings_strings sample_settings)"
    by (simp add: sample_settings_def settings_strings_def ascii_valid_utf8)
  from written_settings_reread_iff [OF refj.json_library_axioms reft.text_roundtrip_axioms this refl
      \<open>open_file ?S _ = _\<close> run]
    run sample_settings_complete
  show ?thesis by simp
qed

text \<open>C30: After any sequence of readings the path is that of the last one, whether it succeeded or not,
  while the settings are those of the last one that succeeded, or the initial ones: after a
  failure the two belong to different files.\<close>

theorem settings_of_last_success:
  assumes "read_many F J T reads st = (rs, st')"
  shows "input_file_path st' = (if reads = [] then input_file_path st else fst (last reads)) \<and>
    (case find (\<lambda>(r, _). \<not> isl r) (rev (zip rs reads)) of
       None \<Rightarrow> input_file_member st' = input_file_member st
     | Some (_, path, S) \<Rightarrow> read_from F S J T path (input_file_member st'))"
  using assms
proof (induction reads arbitrary: rs st' rule: rev_induct)
  case (snoc read reads)
  obtain path S where read: "read = (path, S)" by fastforce
  obtain rs1 st1 where first: "read_many F J T reads st = (rs1, st1)" by fastforce
  obtain r st2 logs where last: "read_input_file F S J T path st1 = (r, st2, logs)"
    by (metis surj_pair)
  have "rs = rs1 @ [r]" and "st' = st2"
    using snoc.prems first last by (simp_all add: read read_many_snoc)
  moreover have "length rs1 = length reads"
    using first by (rule length_read_many)
  ultimately show ?case
    using snoc.IH [OF first] read_input_file_cases [where F = F and S = S and J = J and T = T and path = path and st = st1] last
    by (cases r) (auto simp: read split: option.splits)
qed simp

theorem settings_of_last_success_witness:
  "\<exists>rs st'. read_many plain_paths reference_json reference_text
      [(''a.json'', one_file ''a.json'' ''{}''), (''b.json'', one_file ''a.json'' ''{}'')]
      (new_options '''') = (rs, st') \<and>
    input_file_path st' = ''b.json'' \<and>
    read_from plain_paths (one_file ''a.json'' ''{}'') reference_json reference_text ''a.json''
      (input_file_member st')"
proof -
  let ?reads = "[(''a.json'', one_file ''a.json'' ''{}''), (''b.json'', one_file ''a.json'' ''{}'')]"
  have "parse reference_text (strip_bom ''{}'') opt = Inr (JObject [])" for opt
    by (simp add: strip_bom_def reference_text_def)
  moreover have "input_file_of_json reference_json (JObject []) = Inr default_input_file"
    using refj.defaults_read(1) by simp
  ultimately obtain e st' where run:
    "read_many plain_paths reference_json reference_text ?reads (new_options '''') = ([Inr (), Inl e], st')"
    by (simp add: read_input_file_def read_body_def one_file_def plain_paths_def Let_def)
  from settings_of_last_success [OF run] run show ?thesis by simp
qed

end
