(* ===== verification/Core_Communications.thy ===== *)
theory Core_Communications
  imports Tcp_Server Options
begin

text \<open>
  \<open>core::communications\<close> (\<open>libs/core/src/communications\<close>): the base class that keeps references to
  an I/O context and to the settings singleton, its two derived classes, and name resolution.
\<close>

section \<open>Objects\<close>

text \<open>A reference to an I/O context is its name; the other reference is to the one instance of
  \<open>options\<close>, whose state is passed along.\<close>

datatype options_reference = Options_instance

record 'c async_communication =
  io_context_ref :: 'c
  options_ref :: options_reference

definition new_async_communication :: "'c \<Rightarrow> 'c async_communication" where
  "new_async_communication io_context = \<lparr>io_context_ref = io_context, options_ref = Options_instance\<rparr>"

definition core_async_tcp_client :: "'c \<Rightarrow> 'c async_communication" where
  "core_async_tcp_client io_context = new_async_communication io_context"

definition core_async_tcp_server :: "'c \<Rightarrow> 'c async_communication" where
  "core_async_tcp_server io_context = new_async_communication io_context"

section \<open>Operations\<close>

text \<open>\<open>resolve_once\<close> gives the resolver's own result.\<close>

definition resolve_once :: "('e, 'a) network \<Rightarrow> string \<Rightarrow> string \<Rightarrow> exn + 'a endpoint list" where
  "resolve_once N host service = async_resolve N host service"

text \<open>Following the reference.\<close>

fun referred_options :: "options_reference \<Rightarrow> 'p options \<Rightarrow> 'p options" where
  "referred_options Options_instance st = st"

text \<open>A communication object made before the input file is read sees the settings read after.\<close>

lemma settings_seen_through_reference:
  assumes "open_file S (path_string F path) = Inr (Inr text)"
    and "parse T (strip_bom text)
      \<lparr>allow_comments = is_jsonc_path F path, allow_trailing_commas = True\<rparr> = Inr jv"
    and "input_file_of_json J jv = Inr f"
  shows "\<exists>st' logs. read_input_file F S J T path st = (Inr (), st', logs) \<and>
    options_input_file (referred_options (options_ref (core_async_tcp_server io)) st') = f"
  using read_body_ok [OF assms]
  by (simp add: read_input_file_def options_input_file_def core_async_tcp_server_def
      new_async_communication_def)

end
