(* ===== verification/Council.thy ===== *)
theory Council
  imports Logging
begin

text \<open>
  The student council and its officers: \<open>libs/core/src/student_council.cpp\<close>, \<open>historian.cpp\<close>,
  \<open>president.cpp\<close>, \<open>vice_president.cpp\<close>, \<open>secretary.cpp\<close>, \<open>treasurer.cpp\<close> and
  \<open>general_affairs_officer.cpp\<close>.  An officer's \<open>hello()\<close> is the records it logs.  The version
  macros of Boost are parameters.
\<close>

section \<open>The officers\<close>

datatype officer = General_affairs_officer | President | Vice_president | Secretary | Historian | Treasurer

record boost_version =
  BOOST_LIB_VERSION :: string
  BOOST_VERSION :: nat

definition historian_hello :: "boost_version \<Rightarrow> log_record list" where
  "historian_hello B =
     [(Debug, ''Boost version (string): '' @ BOOST_LIB_VERSION B),
      (Debug, ''Boost version (numeric): '' @ decimal (BOOST_VERSION B div 100000) @ ''.'' @
        decimal (BOOST_VERSION B div 100 mod 1000) @ ''.'' @ decimal (BOOST_VERSION B mod 100))]"

text \<open>The other officers override \<open>hello()\<close> with an empty body.\<close>

definition general_affairs_officer_hello :: "log_record list" where
  "general_affairs_officer_hello = []"

definition president_hello :: "log_record list" where
  "president_hello = []"

definition vice_president_hello :: "log_record list" where
  "vice_president_hello = []"

definition secretary_hello :: "log_record list" where
  "secretary_hello = []"

definition treasurer_hello :: "log_record list" where
  "treasurer_hello = []"

lemmas silent_officers =
  general_affairs_officer_hello_def president_hello_def vice_president_hello_def
  secretary_hello_def treasurer_hello_def

text \<open>The virtual call on an officer.\<close>

fun officer_hello :: "boost_version \<Rightarrow> officer \<Rightarrow> log_record list" where
  "officer_hello B General_affairs_officer = general_affairs_officer_hello"
| "officer_hello B President = president_hello"
| "officer_hello B Vice_president = vice_president_hello"
| "officer_hello B Secretary = secretary_hello"
| "officer_hello B Historian = historian_hello B"
| "officer_hello B Treasurer = treasurer_hello"

section \<open>The council\<close>

text \<open>The officers it holds; its I/O context is never used.\<close>

record student_council =
  president_of :: officer
  vice_president_of :: officer
  secretary_of :: officer
  historian_of :: officer
  treasurer_of :: officer

definition new_student_council :: student_council where
  "new_student_council =
     \<lparr>president_of = President, vice_president_of = Vice_president, secretary_of = Secretary,
      historian_of = Historian, treasurer_of = Treasurer\<rparr>"

text \<open>No operation changes the one instance.\<close>

definition student_council_instance :: "student_council option \<Rightarrow> student_council" where
  "student_council_instance slot = get_mutable_instance new_student_council slot"

definition student_council_hello :: "boost_version \<Rightarrow> student_council \<Rightarrow> log_record list" where
  "student_council_hello B c =
     officer_hello B (president_of c) @ officer_hello B (vice_president_of c) @
     officer_hello B (secretary_of c) @ officer_hello B (historian_of c) @
     officer_hello B (treasurer_of c)"

text \<open>\<open>run()\<close> takes the settings by reference and does nothing.\<close>

definition student_council_run :: "student_council \<Rightarrow> 's \<Rightarrow> 's" where
  "student_council_run c s = s"

lemma student_council_hello_eq:
  "student_council_hello B (student_council_instance None) = historian_hello B"
  by (simp add: student_council_hello_def student_council_instance_def new_student_council_def
      silent_officers)

section \<open>Properties\<close>

text \<open>The greeting logs two debug records, and the numeric one spells the version that
  \<open>BOOST_VERSION\<close> encodes as major, minor and patch level, as long as the minor version has at
  most three digits and the patch level two.\<close>

theorem council_greeting:
  assumes "BOOST_VERSION B = 100000 * major + 100 * minor + patch"
    and "minor < 1000" and "patch < 100"
  shows "student_council_hello B (student_council_instance None) =
    [(Debug, ''Boost version (string): '' @ BOOST_LIB_VERSION B),
     (Debug, ''Boost version (numeric): '' @ decimal major @ ''.'' @ decimal minor @ ''.'' @ decimal patch)]"
proof -
  have v: "BOOST_VERSION B = (1000 * major + minor) * 100 + patch"
    using assms(1) by simp
  then have "BOOST_VERSION B div 100000 = major" "BOOST_VERSION B div 100 = 1000 * major + minor"
    using assms(2,3) by simp_all
  moreover have "BOOST_VERSION B mod 100 = patch"
    unfolding v mod_mult_self3 using assms(3) by simp
  ultimately show ?thesis
    using assms(2) by (simp add: student_council_hello_eq historian_hello_def)
qed

theorem council_greeting_witness:
  "student_council_hello \<lparr>BOOST_LIB_VERSION = ''1_86'', BOOST_VERSION = 108600\<rparr>
      (student_council_instance None) =
     [(Debug, ''Boost version (string): 1_86''), (Debug, ''Boost version (numeric): 1.86.0'')]"
  using council_greeting [of "\<lparr>BOOST_LIB_VERSION = ''1_86'', BOOST_VERSION = 108600\<rparr>" 1 86 0]
  by (simp add: decimal.simps digits_def)

end
