(* ===== verification/Main_App.thy ===== *)
theory Main_App
  imports Options Council
begin

text \<open>
  The program's entry point, \<open>src/main.cpp\<close>: log set-up, command line, the run and the handlers
  that turn an exception into an exit status.  The file system, Boost.Program_options and
  \<open>boost::diagnostic_information\<close> are parameters.  The console code page handling of Windows is in
  \<open>Console\<close>, the process around \<open>main\<close> in \<open>Main_Process\<close>.
\<close>

section \<open>What the code calls\<close>

datatype file_type = Regular_file | Directory_file | Other_file

record 'p fs_api = "'p path_api" +
  path_of :: "string \<Rightarrow> 'p"
  absolute :: "'p \<Rightarrow> lib_exn + 'p"
  append_path :: "'p \<Rightarrow> 'p \<Rightarrow> 'p"
  is_relative :: "'p \<Rightarrow> bool"
  file_exists :: "'p \<Rightarrow> lib_exn + bool"
  file_status :: "'p \<Rightarrow> int + file_type"
  status_what :: "int \<Rightarrow> string \<Rightarrow> string"
  create_directories :: "'p \<Rightarrow> lib_exn + unit"

text \<open>A declared option: its names, its default value when it takes a value, its description.\<close>

record option_decl =
  option_names :: string
  option_value :: "string option"
  option_text :: string

text \<open>\<open>parse_command_line\<close> is \<open>command_line_parser(...).options(desc).positional(pos).run()\<close> with
  \<open>store\<close>; \<open>occurs\<close> and \<open>as_path\<close> are \<open>vm.count(name)\<close> and \<open>vm[name].as<fs::path>()\<close>, the
  default applied.  No option is required and none has a notifier, so \<open>notify\<close> does nothing.\<close>

record 'p variables_map =
  occurs :: "string \<Rightarrow> nat"
  as_path :: "string \<Rightarrow> lib_exn + 'p"

record 'p po_api =
  parse_command_line ::
    "option_decl list \<Rightarrow> (string \<times> int) list \<Rightarrow> string list \<Rightarrow> lib_exn + 'p variables_map"
  describe_options :: "string \<Rightarrow> option_decl list \<Rightarrow> string"

section \<open>Messages\<close>

definition msg_available_options :: string where
  "msg_available_options =
     utf8 [229, 136, 169, 231, 148, 168, 229, 143, 175, 232, 131, 189, 227, 129, 170, 227, 130,
       170, 227, 131, 151, 227, 130, 183, 227, 131, 167, 227, 131, 179]"

definition msg_input_file :: string where
  "msg_input_file =
     utf8 [229, 133, 165, 229, 138, 155, 227, 131, 149, 227, 130, 161, 227, 130, 164, 227, 131,
       171]"

definition msg_show_help :: string where
  "msg_show_help =
     utf8 [227, 131, 152, 227, 131, 171, 227, 131, 151, 227, 130, 146, 232, 161, 168, 231, 164,
       186]"

definition msg_no_input_file :: string where
  "msg_no_input_file =
     utf8 [229, 133, 165, 229, 138, 155, 227, 131, 149, 227, 130, 161, 227, 130, 164, 227, 131,
       171, 227, 129, 140, 229, 173, 152, 229, 156, 168, 227, 129, 151, 227, 129, 190, 227,
       129, 155, 227, 130, 147, 227, 128, 130]"

definition msg_status_failed :: string where
  "msg_status_failed =
     utf8 [227, 131, 149, 227, 130, 161, 227, 130, 164, 227, 131, 171, 231, 138, 182, 230, 133,
       139, 227, 129, 174, 229, 143, 150, 229, 190, 151, 227, 129, 171, 229, 164, 177, 230,
       149, 151, 227, 129, 151, 227, 129, 190, 227, 129, 151, 227, 129, 159, 227, 128, 130]"

definition msg_upper_level :: string where
  "msg_upper_level =
     utf8 [228, 184, 138, 228, 189, 141, 227, 131, 172, 227, 131, 153, 227, 131, 171, 227, 129,
       174, 227, 130, 168, 227, 131, 169, 227, 131, 188, 227, 129, 140, 231, 153, 186, 231,
       148, 159, 227, 129, 151, 227, 129, 190, 227, 129, 151, 227, 129, 159, 227, 128, 130]"

definition msg_unknown_error :: string where
  "msg_unknown_error =
     utf8 [228, 184, 141, 230, 152, 142, 227, 129, 170, 227, 130, 168, 227, 131, 169, 227, 131,
       188, 227, 129, 140, 231, 153, 186, 231, 148, 159, 227, 129, 151, 227, 129, 190, 227,
       129, 151, 227, 129, 159, 227, 128, 130]"

section \<open>Log set-up\<close>

record 'p log_config =
  log_file_pattern :: 'p
  rotated_file_pattern :: 'p
  open_mode_append :: bool
  final_rotation :: bool
  rotation_size :: int
  rotation_time :: "nat \<times> nat \<times> nat"
  console_filter :: severity
  file_filter :: severity

definition init_logging :: "'p fs_api \<Rightarrow> string \<Rightarrow> lib_exn + 'p log_config" where
  "init_logging F executable_path =
     bind_res (absolute F (path_of F executable_path)) (\<lambda>exe.
       let exe_dir = parent_path F exe;
           log_dir = append_path F exe_dir (path_of F ''logs'')
       in bind_res (create_directories F log_dir) (\<lambda>_.
         Inr \<lparr>log_file_pattern = append_path F log_dir (path_of F ''app_%Y%m%d.log''),
              rotated_file_pattern = append_path F log_dir (path_of F ''app_%Y%m%d_%2N.log''),
              open_mode_append = True, final_rotation = False,
              rotation_size = 256 * 1024 * 1024, rotation_time = (0, 0, 0),
              console_filter = console_least, file_filter = file_least\<rparr>))"

section \<open>The command line\<close>

definition option_table :: "option_decl list" where
  "option_table =
     [\<lparr>option_names = ''input,i'', option_value = Some ''app.jsonc'', option_text = msg_input_file\<rparr>,
      \<lparr>option_names = ''help,h'', option_value = None, option_text = msg_show_help\<rparr>]"

definition positional_table :: "(string \<times> int) list" where
  "positional_table = [(''input'', 1)]"

definition is_regular_input_file :: "'p fs_api \<Rightarrow> 'p \<Rightarrow> exn + bool" where
  "is_regular_input_file F p =
     (case file_exists F p of
        Inl e \<Rightarrow> Inl (Lib e)
      | Inr False \<Rightarrow> Inr False
      | Inr True \<Rightarrow>
          (case file_status F p of
             Inl ec \<Rightarrow> Inl (throw_std System_error (status_what F ec msg_status_failed))
           | Inr st \<Rightarrow> Inr (st = Regular_file)))"

text \<open>From the parsed options on, inside the \<open>try\<close> block.\<close>

definition choose_input_file :: "'p fs_api \<Rightarrow> 'p \<Rightarrow> 'p \<Rightarrow> exn + 'p" where
  "choose_input_file F exe_dir input_file =
     bind_res (is_regular_input_file F input_file) (\<lambda>regular.
       if regular then Inr input_file
       else if is_relative F input_file then
         let input_file = append_path F exe_dir input_file
         in bind_res (is_regular_input_file F input_file) (\<lambda>regular.
              if regular then Inr input_file
              else Inl (My_error \<lparr>errinfo_path = Some (path_string F input_file),
                errinfo_errno = None, errinfo_message = Some msg_no_input_file\<rparr> None))
       else Inr input_file)"

definition parse_args_body :: "'p fs_api \<Rightarrow> 'p po_api \<Rightarrow> 'p \<Rightarrow> string list \<Rightarrow> exn + 'p" where
  "parse_args_body F PO exe_dir args =
     (case parse_command_line PO option_table positional_table args of
        Inl e \<Rightarrow> Inl (Lib e)
      | Inr vm \<Rightarrow>
        if occurs vm ''help'' \<noteq> 0 then
          Inl (Show_help \<lparr>errinfo_path = None, errinfo_errno = None,
            errinfo_message = Some (describe_options PO msg_available_options option_table)\<rparr>)
        else case as_path vm ''input'' of
          Inl e \<Rightarrow> Inl (Lib e)
        | Inr input_file \<Rightarrow> choose_input_file F exe_dir input_file)"

definition parse_args :: "'p fs_api \<Rightarrow> 'p po_api \<Rightarrow> string \<Rightarrow> string list \<Rightarrow> exn + 'p" where
  "parse_args F PO argv0 args =
     (case absolute F (path_of F argv0) of
        Inl e \<Rightarrow> Inl (Lib e)
      | Inr exe \<Rightarrow>
        (case parse_args_body F PO (parent_path F exe) args of
           Inr input_file \<Rightarrow> Inr input_file
         | Inl e \<Rightarrow>
             if isa_std_exception e
             then Inl (My_error \<lparr>errinfo_path = None, errinfo_errno = None,
               errinfo_message = Some msg_upper_level\<rparr> (Some e))
             else Inl e))"

section \<open>The run\<close>

text \<open>The \<open>try\<close> block of \<open>main\<close>: its result, the settings it leaves and the records it logs.\<close>

definition main_body ::
    "'p fs_api \<Rightarrow> 'p po_api \<Rightarrow> file_api \<Rightarrow> ('j, 'o) json_api \<Rightarrow> 'j json_text \<Rightarrow> boost_version \<Rightarrow>
     string \<Rightarrow> string list \<Rightarrow> 'p options \<Rightarrow> (exn + unit) \<times> 'p options \<times> log_record list" where
  "main_body F PO S J T B argv0 args st =
     (case init_logging F argv0 of
        Inl e \<Rightarrow> (Inl (Lib e), st, [])
      | Inr cfg \<Rightarrow>
        let student_council = student_council_instance None;
            greeting = student_council_hello B student_council
        in case parse_args F PO argv0 args of
          Inl e \<Rightarrow> (Inl e, st, greeting)
        | Inr input_file \<Rightarrow>
          (case read_input_file F S J T input_file st of
             (Inl e, st', logs) \<Rightarrow> (Inl e, st', greeting @ logs)
           | (Inr _, st', logs) \<Rightarrow> (Inr (), student_council_run student_council st', greeting @ logs)))"

text \<open>How the process ends: with a status, or by an exception that leaves a handler.\<close>

datatype ending = Exit int | Uncaught

definition usage_lines :: "string list" where
  "usage_lines =
     [''Usage: app [Options]'', ''Options:'',
      ''  -i [--input] arg    '' @ msg_input_file,
      ''  -h [--help]         '' @ msg_show_help]"

text \<open>The handlers, in their order; a result is the ending, the lines on standard output and the
  records logged.  \<open>D\<close> is \<open>boost::diagnostic_information\<close>, \<open>depth\<close> the stack available, and
  \<open>None\<close> means that no result was produced within it.\<close>

definition handle_exception ::
    "diag_fn \<Rightarrow> nat \<Rightarrow> exn \<Rightarrow> (ending \<times> string list \<times> log_record list) option" where
  "handle_exception D depth e =
     (case e of
        Show_help i \<Rightarrow>
          Some (Exit 0, case errinfo_message i of Some msg \<Rightarrow> [msg] | None \<Rightarrow> usage_lines, [])
      | _ \<Rightarrow>
        if isa_boost_exception e then
          (case D (what D depth) e of
             None \<Rightarrow> None
           | Some (Inl _) \<Rightarrow> Some (Uncaught, [], [])
           | Some (Inr text) \<Rightarrow> Some (Exit 1, [], [(Fatal, text @ [CHR 0x0A])]))
        else if isa_std_exception e then
          (case what D depth e of
             None \<Rightarrow> None
           | Some text \<Rightarrow> Some (Exit 2, [], [(Fatal, c_str text @ [CHR 0x0A])]))
        else Some (Exit 3, [], [(Fatal, msg_unknown_error @ [CHR 0x0A])]))"

definition main_program ::
    "'p fs_api \<Rightarrow> 'p po_api \<Rightarrow> file_api \<Rightarrow> ('j, 'o) json_api \<Rightarrow> 'j json_text \<Rightarrow> boost_version \<Rightarrow>
     diag_fn \<Rightarrow> nat \<Rightarrow> string \<Rightarrow> string list \<Rightarrow> 'p options \<Rightarrow>
     (ending \<times> string list \<times> log_record list \<times> 'p options) option" where
  "main_program F PO S J T B D depth argv0 args st =
     (case main_body F PO S J T B argv0 args st of
        (Inr _, st', logs) \<Rightarrow> Some (Exit 0, [], logs, st')
      | (Inl e, st', logs) \<Rightarrow>
        (case handle_exception D depth e of
           None \<Rightarrow> None
         | Some (ending, out, fatal) \<Rightarrow> Some (ending, out, logs @ fatal, st')))"

section \<open>Helper facts\<close>

lemma choose_input_file_Inr:
  "choose_input_file F exe_dir i = Inr q \<longleftrightarrow>
    (is_regular_input_file F i = Inr True \<and> q = i) \<or>
    (is_regular_input_file F i = Inr False \<and> is_relative F i \<and>
       q = append_path F exe_dir i \<and> is_regular_input_file F q = Inr True) \<or>
    (is_regular_input_file F i = Inr False \<and> \<not> is_relative F i \<and> q = i)"
proof (cases "is_regular_input_file F i")
  case (Inr regular)
  then show ?thesis
    by (cases "is_regular_input_file F (append_path F exe_dir i)")
      (auto simp: choose_input_file_def Let_def)
qed (simp add: choose_input_file_def)

lemma parse_args_Inl:
  assumes "parse_args F PO argv0 args = Inl e"
  shows "(\<exists>l. e = Lib l) \<or>
    (\<exists>cause. e = My_error \<lparr>errinfo_path = None, errinfo_errno = None,
       errinfo_message = Some msg_upper_level\<rparr> (Some cause))"
proof (cases "absolute F (path_of F argv0)")
  case (Inr exe)
  with assms obtain e' where body: "parse_args_body F PO (parent_path F exe) args = Inl e'"
    and e: "e = (if isa_std_exception e'
      then My_error \<lparr>errinfo_path = None, errinfo_errno = None,
        errinfo_message = Some msg_upper_level\<rparr> (Some e') else e')"
    by (auto simp: parse_args_def split: sum.splits if_splits)
  show ?thesis
  proof (cases "isa_std_exception e'")
    case False
    with e show ?thesis by (cases e') auto
  qed (use e in auto)
qed (use assms in \<open>auto simp: parse_args_def\<close>)

lemma parse_args_Inr:
  "parse_args F PO argv0 args = Inr q \<longleftrightarrow>
    (\<exists>exe vm i. absolute F (path_of F argv0) = Inr exe \<and>
      parse_command_line PO option_table positional_table args = Inr vm \<and>
      occurs vm ''help'' = 0 \<and> as_path vm ''input'' = Inr i \<and>
      choose_input_file F (parent_path F exe) i = Inr q)"
  by (auto simp: parse_args_def parse_args_body_def split: sum.splits if_splits)

lemma wrap_exception_my_error: "\<exists>i. wrap_exception t e = My_error i None"
  by (cases e) auto

lemma read_input_file_Inl:
  "read_input_file F S J T path st = (Inl e, st', logs) \<Longrightarrow> \<exists>i. e = My_error i None"
  using wrap_exception_my_error
  by (auto simp: read_input_file_def split: sum.splits prod.splits)

text \<open>The exceptions that reach the handlers of \<open>main\<close>.\<close>

lemma main_body_Inl:
  assumes "main_body F PO S J T B argv0 args st = (Inl e, st', logs)"
  shows "(\<exists>l. e = Lib l) \<or> (\<exists>i nested. e = My_error i nested)"
proof -
  from assms consider l where "e = Lib l"
    | "parse_args F PO argv0 args = Inl e"
    | path l2 where "read_input_file F S J T path st = (Inl e, st', l2)"
    by (auto simp: main_body_def Let_def split: sum.splits prod.splits)
  then show ?thesis
  proof cases
    case 2
    with parse_args_Inl [OF this] show ?thesis by blast
  next
    case 3
    with read_input_file_Inl [OF this] show ?thesis by blast
  qed blast
qed

lemma handle_my_error:
  "includes_what D \<Longrightarrow> handle_exception D depth (My_error i nested) = None"
  by (simp add: handle_exception_def includes_what_def what_fails_if_includes_what)

lemma handle_lib:
  assumes "handle_exception D depth (Lib l) = Some (ending, out, fatal)"
  shows "out = [] \<and> ending \<in> {Exit 1, Exit 2, Exit 3, Uncaught}"
  using assms
  by (auto simp: handle_exception_def split: if_splits option.splits sum.splits)

lemma handle_exception_ending:
  assumes "handle_exception D depth e = Some (ending, out, fatal)" and "\<And>i. e \<noteq> Show_help i"
  shows "if ending = Uncaught then isa_boost_exception e \<and> fatal = []
    else ending = Exit (if isa_boost_exception e then 1 else if isa_std_exception e then 2 else 3) \<and>
      (\<exists>text. fatal = [(Fatal, text)])"
proof (cases e)
  case (Lib l)
  with assms(1) show ?thesis
    by (auto simp: handle_exception_def split: if_splits option.splits sum.splits)
next
  case (My_error i nested)
  with assms(1) show ?thesis
    by (auto simp: handle_exception_def split: if_splits option.splits sum.splits)
qed (use assms(2) in blast)

section \<open>An example environment\<close>

text \<open>String paths, one existing file, and a command line that knows \<open>--help\<close> and a position
  argument.\<close>

definition sample_fs :: "string \<Rightarrow> string fs_api" where
  "sample_fs file =
     \<lparr>path_string = id,
      extension = extension plain_paths,
      parent_path = parent_path plain_paths,
      path_of = id,
      absolute = (\<lambda>p. Inr p),
      append_path = (\<lambda>p q. p @ ''/'' @ q),
      is_relative = (\<lambda>p. take 1 p \<noteq> ''/''),
      file_exists = (\<lambda>p. Inr (p = file)),
      file_status = (\<lambda>p. Inr Regular_file),
      status_what = (\<lambda>ec msg. msg),
      create_directories = (\<lambda>p. Inr ())\<rparr>"

definition sample_po :: "string po_api" where
  "sample_po =
     \<lparr>parse_command_line = (\<lambda>desc pos args. Inr
        \<lparr>occurs = (\<lambda>n. if n = ''help'' \<and> ''--help'' \<in> set args then 1 else 0),
         as_path = (\<lambda>n. Inr (case args of [] \<Rightarrow> ''app.jsonc'' | a # _ \<Rightarrow> a))\<rparr>),
      describe_options = (\<lambda>caption desc. caption)\<rparr>"

definition start_options :: "string options" where
  "start_options = options_instance '''' None"

lemma sample_parse_args: "parse_args (sample_fs ''/app/app.jsonc'') sample_po ''/app/app'' [] = Inr ''/app/app.jsonc''"
  by (simp add: parse_args_Inr choose_input_file_Inr is_regular_input_file_def sample_fs_def
      sample_po_def plain_paths_def)

section \<open>Properties\<close>

text \<open>C12: A run in which nothing fails: the process exits with status 0, prints nothing, shows nothing
  on the console and leaves three records in the log file, the greeting's two and the settings
  it has read and now holds.\<close>

theorem successful_run:
  assumes "init_logging F argv0 = Inr cfg" and "parse_args F PO argv0 args = Inr path"
    and "open_file S (path_string F path) = Inr (Inr text)"
    and "parse T (strip_bom text)
      \<lparr>allow_comments = is_jsonc_path F path, allow_trailing_commas = True\<rparr> = Inr jv"
    and "input_file_of_json J jv = Inr f"
  shows "\<exists>logs. main_program F PO S J T B D depth argv0 args st =
      Some (Exit 0, [], logs, \<lparr>input_file_path = path, input_file_member = f\<rparr>) \<and>
    sink_records console_least logs = [] \<and>
    sink_records file_least logs = student_council_hello B (student_council_instance None) @
      [(Debug, msg_file_read @ serialize T (json_of_input_file J f))]"
proof -
  have "read_input_file F S J T path st =
      (Inr (), \<lparr>input_file_path = path, input_file_member = f\<rparr>,
       [(Debug, msg_file_read @ serialize T (json_of_input_file J f))])"
    using read_body_ok [OF assms(3-5)] by (simp add: read_input_file_def)
  then have "main_program F PO S J T B D depth argv0 args st =
      Some (Exit 0, [], student_council_hello B (student_council_instance None) @
        [(Debug, msg_file_read @ serialize T (json_of_input_file J f))],
        \<lparr>input_file_path = path, input_file_member = f\<rparr>)"
    using assms(1,2) by (simp add: main_program_def main_body_def Let_def student_council_run_def)
  then show ?thesis
    by (simp add: student_council_hello_eq historian_hello_def) (simp add: sink_records_def)
qed

theorem successful_run_witness:
  "\<exists>logs. main_program (sample_fs ''/app/app.jsonc'') sample_po (one_file ''/app/app.jsonc'' ''{}'')
      reference_json reference_text \<lparr>BOOST_LIB_VERSION = ''1_86'', BOOST_VERSION = 108600\<rparr>
      (\<lambda>w e. map_option Inr (w e)) 9 ''/app/app'' [] start_options =
      Some (Exit 0, [], logs,
        \<lparr>input_file_path = ''/app/app.jsonc'', input_file_member = default_input_file\<rparr>) \<and>
    sink_records console_least logs = []"
proof -
  let ?F = "sample_fs ''/app/app.jsonc''"
  obtain cfg where log: "init_logging ?F ''/app/app'' = Inr cfg"
    by (simp add: init_logging_def sample_fs_def Let_def)
  have open_it: "open_file (one_file ''/app/app.jsonc'' ''{}'') (path_string ?F ''/app/app.jsonc'') =
      Inr (Inr ''{}'')"
    by (simp add: one_file_def sample_fs_def)
  have parsed: "parse reference_text (strip_bom ''{}'') opt = Inr (JObject [])" for opt
    by (simp add: strip_bom_def reference_text_def)
  have "input_file_of_json reference_json (JObject []) = Inr default_input_file"
    using refj.defaults_read(1) by simp
  from successful_run [OF log sample_parse_args open_it parsed this] show ?thesis by blast
qed

text \<open>C13: Which path \<open>parse_args\<close> returns: the input as given when it is a regular file; for a relative
  one that is not, the path next to the executable when that is a regular file; and an absolute
  one as it is, be it missing or a directory.  Nothing else makes it return.\<close>

theorem parse_args_path:
  "parse_args F PO argv0 args = Inr q \<longleftrightarrow>
    (\<exists>exe vm i. absolute F (path_of F argv0) = Inr exe \<and>
      parse_command_line PO option_table positional_table args = Inr vm \<and>
      occurs vm ''help'' = 0 \<and> as_path vm ''input'' = Inr i \<and>
      ((is_regular_input_file F i = Inr True \<and> q = i) \<or>
       (is_regular_input_file F i = Inr False \<and> is_relative F i \<and>
          q = append_path F (parent_path F exe) i \<and> is_regular_input_file F q = Inr True) \<or>
       (is_regular_input_file F i = Inr False \<and> \<not> is_relative F i \<and> q = i)))"
  unfolding parse_args_Inr choose_input_file_Inr ..

text \<open>C34: The help request never leaves \<open>parse_args\<close> as such: with \<open>--help\<close> given, the \<open>show_help\<close>
  exception is caught there and nested in a \<open>my_error\<close>, so the branch of \<open>main\<close> that prints the
  help and exits with 0 is not reached by any command line.\<close>

theorem help_is_never_shown:
  "parse_args F PO argv0 args \<noteq> Inl (Show_help i) \<and>
   (absolute F (path_of F argv0) = Inr exe \<longrightarrow>
    parse_command_line PO option_table positional_table args = Inr vm \<longrightarrow> occurs vm ''help'' \<noteq> 0 \<longrightarrow>
      parse_args F PO argv0 args =
        Inl (My_error \<lparr>errinfo_path = None, errinfo_errno = None,
               errinfo_message = Some msg_upper_level\<rparr>
          (Some (Show_help \<lparr>errinfo_path = None, errinfo_errno = None,
             errinfo_message = Some (describe_options PO msg_available_options option_table)\<rparr>)))) \<and>
   main_body F PO S J T B argv0 args st \<noteq> (Inl (Show_help i), st', logs)"
  using parse_args_Inl [of F PO argv0 args "Show_help i"]
    main_body_Inl [of F PO S J T B argv0 args st "Show_help i" st' logs]
  by (auto simp: parse_args_def parse_args_body_def)

theorem help_is_never_shown_witness:
  "\<exists>i. parse_args (sample_fs ''/app/app.jsonc'') sample_po ''/app/app'' [''--help''] =
     Inl (My_error i (Some (Show_help \<lparr>errinfo_path = None, errinfo_errno = None,
       errinfo_message = Some msg_available_options\<rparr>)))"
proof -
  let ?F = "sample_fs ''/app/app.jsonc''"
  have exe: "absolute ?F (path_of ?F ''/app/app'') = Inr ''/app/app''"
    by (simp add: sample_fs_def)
  obtain vm where vm: "parse_command_line sample_po option_table positional_table [''--help''] = Inr vm"
    and asked: "occurs vm ''help'' \<noteq> 0"
    by (simp add: sample_po_def)
  have "describe_options sample_po msg_available_options option_table = msg_available_options"
    by (simp add: sample_po_def)
  with help_is_never_shown [THEN conjunct2, THEN conjunct1, THEN mp, OF exe, THEN mp, OF vm,
      THEN mp, OF asked]
  show ?thesis by simp
qed

text \<open>C10: With a library whose diagnostic text includes \<open>what()\<close>, the process reports no error of its
  own: whenever it ends with a status, either everything succeeded and the status is 0, or the
  exception came from a library before the command line was looked at or was foreign to
  \<open>std::exception\<close>; the missing input file, the unreadable file and the help request end in the
  endless recursion of \<open>my_error::what()\<close> instead of status 1.\<close>

theorem own_errors_are_never_reported:
  assumes "includes_what D"
    and "main_program F PO S J T B D depth argv0 args st = Some (ending, out, logs, st')"
  shows "out = [] \<and>
    (case fst (main_body F PO S J T B argv0 args st) of
       Inr _ \<Rightarrow> ending = Exit 0
     | Inl e \<Rightarrow> (\<exists>l. e = Lib l) \<and> ending \<in> {Exit 1, Exit 2, Exit 3, Uncaught})"
proof -
  obtain r st1 logs1 where body: "main_body F PO S J T B argv0 args st = (r, st1, logs1)"
    by (metis surj_pair)
  show ?thesis
  proof (cases r)
    case (Inl e)
    with assms(2) body obtain fatal where h: "handle_exception D depth e = Some (ending, out, fatal)"
      by (auto simp: main_program_def split: option.splits)
    have "e \<noteq> My_error i nested" for i nested
      using h handle_my_error [OF assms(1)] by auto
    with main_body_Inl [of F PO S J T B argv0 args st e st1 logs1] body Inl obtain l where "e = Lib l"
      by blast
    with handle_lib [of D depth l ending out fatal] h body Inl show ?thesis by simp
  qed (use assms(2) body in \<open>auto simp: main_program_def\<close>)
qed

theorem own_errors_are_never_reported_witness:
  "\<exists>logs st'. main_program
      ((sample_fs ''/app/app.jsonc'')\<lparr>absolute := \<lambda>p. Inl (Std_exn System_error True ''denied'')\<rparr>) sample_po
      (one_file ''/app/app.jsonc'' ''{}'') reference_json reference_text
      \<lparr>BOOST_LIB_VERSION = ''1_86'', BOOST_VERSION = 108600\<rparr>
      (\<lambda>w e. map_option Inr (w e)) 1 ''/app/app'' [] start_options = Some (Exit 1, [], logs, st')"
proof -
  let ?main = "main_program
      ((sample_fs ''/app/app.jsonc'')\<lparr>absolute := \<lambda>p. Inl (Std_exn System_error True ''denied'')\<rparr>) sample_po
      (one_file ''/app/app.jsonc'' ''{}'') reference_json reference_text
      \<lparr>BOOST_LIB_VERSION = ''1_86'', BOOST_VERSION = 108600\<rparr>
      (\<lambda>w e. map_option Inr (w e)) 1 ''/app/app'' [] start_options"
  obtain out logs st' where run: "?main = Some (Exit 1, out, logs, st')"
    by (simp add: main_program_def main_body_def init_logging_def handle_exception_def sample_fs_def)
  have "includes_what (\<lambda>w e. map_option Inr (w e))" by (simp add: includes_what_def)
  from own_errors_are_never_reported [OF this run] run show ?thesis by simp
qed

text \<open>C24: The exit statuses are the documented ones, with every kind of diagnostic library: a status
  lies between 0 and 3, it is 0 exactly when no exception reached the handlers, 1 for an exception
  derived from \<open>boost::exception\<close>, 2 for another one derived from \<open>std::exception\<close> and 3 for the
  rest; only building the diagnostic text can fail in a handler; and every status but 0 comes
  with exactly one fatal record, after all others, which the console shows.\<close>

theorem exit_status_by_exception:
  assumes "main_program F PO S J T B D depth argv0 args st = Some (ending, out, logs, st')"
    and "main_body F PO S J T B argv0 args st = (r, st1, logs1)"
  shows "(case r of
      Inr _ \<Rightarrow> ending = Exit 0 \<and> logs = logs1
    | Inl e \<Rightarrow>
        if ending = Uncaught then isa_boost_exception e \<and> logs = logs1
        else ending = Exit (if isa_boost_exception e then 1 else if isa_std_exception e then 2 else 3) \<and>
          (\<exists>text. logs = logs1 @ [(Fatal, text)] \<and>
             (Fatal, text) \<in> set (sink_records console_least logs))) \<and>
    (\<forall>n. ending = Exit n \<longrightarrow> 0 \<le> n \<and> n \<le> 3 \<and> (n = 0 \<longleftrightarrow> (\<exists>u. r = Inr u)))"
proof (cases r)
  case (Inl e)
  with main_body_Inl [of F PO S J T B argv0 args st e st1 logs1] assms(2) have "e \<noteq> Show_help i" for i
    by blast
  moreover obtain fatal where "handle_exception D depth e = Some (ending, out, fatal)"
    and logs: "logs = logs1 @ fatal"
    using assms Inl by (auto simp: main_program_def split: option.splits)
  ultimately have h: "if ending = Uncaught then isa_boost_exception e \<and> fatal = []
    else ending = Exit (if isa_boost_exception e then 1 else if isa_std_exception e then 2 else 3) \<and>
      (\<exists>text. fatal = [(Fatal, text)])"
    using handle_exception_ending by blast
  have "(Fatal, t) \<in> set (sink_records console_least (l @ [(Fatal, t)]))" for l t
    by (simp add: sink_records_def console_least_def less_eq_severity_def)
  with h logs Inl show ?thesis by (auto split: if_splits)
qed (use assms in \<open>auto simp: main_program_def\<close>)

theorem exit_status_by_exception_witness:
  "\<exists>logs st'. main_program (sample_fs ''/app/app.jsonc'') sample_po (one_file ''/app/app.jsonc'' ''{}'')
      reference_json reference_text \<lparr>BOOST_LIB_VERSION = ''1_86'', BOOST_VERSION = 108600\<rparr>
      (\<lambda>w e. Some (Inr ''diagnostics'')) 1 ''/app/app'' [''--help''] start_options =
        Some (Exit 1, [], logs, st') \<and>
    (\<exists>text. (Fatal, text) \<in> set (sink_records console_least logs))"
proof -
  let ?F = "sample_fs ''/app/app.jsonc''" and ?S = "one_file ''/app/app.jsonc'' ''{}''"
    and ?B = "\<lparr>BOOST_LIB_VERSION = ''1_86'', BOOST_VERSION = 108600\<rparr>"
    and ?D = "\<lambda>w e. Some (Inr ''diagnostics'')"
  obtain e where failed: "parse_args ?F sample_po ''/app/app'' [''--help''] = Inl (My_error e
      (Some (Show_help \<lparr>errinfo_path = None, errinfo_errno = None,
        errinfo_message = Some msg_available_options\<rparr>)))"
    by (simp add: parse_args_def parse_args_body_def sample_fs_def sample_po_def)
  obtain logs1 x where body: "main_body ?F sample_po ?S reference_json reference_text ?B ''/app/app''
      [''--help''] start_options = (Inl (My_error e x), start_options, logs1)"
    using failed by (simp add: main_body_def init_logging_def sample_fs_def Let_def)
  then obtain logs st' where run: "main_program ?F sample_po ?S reference_json reference_text ?B ?D 1
      ''/app/app'' [''--help''] start_options = Some (Exit 1, [], logs, st')"
    by (simp add: main_program_def handle_exception_def)
  from exit_status_by_exception [OF run body] run show ?thesis by auto
qed

end
