(* ===== verification/Console.thy ===== *)
theory Console
  imports Main_App
begin

text \<open>
  The Windows part of \<open>main\<close> (\<open>src/main.cpp\<close>, under \<open>_WIN32\<close>): the console's code pages are saved,
  set to UTF-8 and restored by the destructor of \<open>ConsoleCodePageGuard\<close> when \<open>main\<close> returns.  The
  console functions are the system's: a parameter over the state \<open>'c\<close> of the console, with what
  Windows documents of them as a locale.  They may refuse a code page; the code does not look.
\<close>

section \<open>The console functions\<close>

record 'c console_api =
  GetConsoleOutputCP :: "'c \<Rightarrow> nat"
  GetConsoleCP :: "'c \<Rightarrow> nat"
  SetConsoleOutputCP :: "nat \<Rightarrow> 'c \<Rightarrow> 'c"
  SetConsoleCP :: "nat \<Rightarrow> 'c \<Rightarrow> 'c"

definition CP_UTF8 :: nat where
  "CP_UTF8 = 65001"

section \<open>The guard\<close>

record code_page_guard =
  old_output_cp :: nat
  old_input_cp :: nat

text \<open>Its construction with the two calls that follow it, and its destructor.\<close>

definition guard_console :: "'c console_api \<Rightarrow> 'c \<Rightarrow> code_page_guard \<times> 'c" where
  "guard_console W c =
     (let oldOut = GetConsoleOutputCP W c; oldIn = GetConsoleCP W c
      in (\<lparr>old_output_cp = oldOut, old_input_cp = oldIn\<rparr>,
          SetConsoleCP W CP_UTF8 (SetConsoleOutputCP W CP_UTF8 c)))"

definition restore_console :: "'c console_api \<Rightarrow> code_page_guard \<Rightarrow> 'c \<Rightarrow> 'c" where
  "restore_console W g c = SetConsoleCP W (old_input_cp g) (SetConsoleOutputCP W (old_output_cp g) c)"

text \<open>A run between the two: \<open>None\<close> when it does not end.  When an exception leaves \<open>main\<close> it depends
  on the implementation whether the destructor runs: \<open>unwinds\<close>.\<close>

definition with_console ::
    "'c console_api \<Rightarrow> bool \<Rightarrow> 'c \<Rightarrow> (ending \<times> 'r) option \<Rightarrow> ((ending \<times> 'r) \<times> 'c) option" where
  "with_console W unwinds c run =
     (let (g, c1) = guard_console W c
      in case run of
           None \<Rightarrow> None
         | Some (ending, r) \<Rightarrow>
             Some ((ending, r),
               if ending = Uncaught \<and> \<not> unwinds then c1 else restore_console W g c1))"

definition main_windows ::
    "'c console_api \<Rightarrow> bool \<Rightarrow> 'c \<Rightarrow> 'p fs_api \<Rightarrow> 'p po_api \<Rightarrow> file_api \<Rightarrow> ('j, 'o) json_api \<Rightarrow>
     'j json_text \<Rightarrow> boost_version \<Rightarrow> diag_fn \<Rightarrow> nat \<Rightarrow> string \<Rightarrow> string list \<Rightarrow> 'p options \<Rightarrow>
     ((ending \<times> string list \<times> log_record list \<times> 'p options) \<times> 'c) option" where
  "main_windows W unwinds c F PO S J T B D depth argv0 args st =
     with_console W unwinds c (main_program F PO S J T B D depth argv0 args st)"

section \<open>What the console promises\<close>

locale console_pages =
  fixes W :: "'c console_api" and supported :: "nat \<Rightarrow> bool"
  assumes output_set: "GetConsoleOutputCP W (SetConsoleOutputCP W p c) =
      (if supported p then p else GetConsoleOutputCP W c)"
    and input_kept: "GetConsoleCP W (SetConsoleOutputCP W p c) = GetConsoleCP W c"
    and input_set: "GetConsoleCP W (SetConsoleCP W p c) = (if supported p then p else GetConsoleCP W c)"
    and output_kept: "GetConsoleOutputCP W (SetConsoleCP W p c) = GetConsoleOutputCP W c"
    and state: "GetConsoleOutputCP W c = GetConsoleOutputCP W c' \<Longrightarrow>
      GetConsoleCP W c = GetConsoleCP W c' \<Longrightarrow> c = c'"
begin

lemma restored:
  assumes "supported (GetConsoleOutputCP W c)" and "supported (GetConsoleCP W c)"
    and "guard_console W c = (g, c1)"
  shows "restore_console W g c1 = c"
  by (rule state)
    (use assms in \<open>auto simp: guard_console_def restore_console_def output_set input_kept input_set
       output_kept Let_def\<close>)

lemma during:
  assumes "supported CP_UTF8" and "guard_console W c = (g, c1)"
  shows "GetConsoleOutputCP W c1 = CP_UTF8 \<and> GetConsoleCP W c1 = CP_UTF8"
  using assms by (auto simp: guard_console_def output_set input_kept input_set output_kept Let_def)

end

text \<open>A console as a pair of code pages that accepts the installed ones.\<close>

definition pair_console :: "(nat \<Rightarrow> bool) \<Rightarrow> (nat \<times> nat) console_api" where
  "pair_console ok =
     \<lparr>GetConsoleOutputCP = fst, GetConsoleCP = snd,
      SetConsoleOutputCP = (\<lambda>p c. if ok p then (p, snd c) else c),
      SetConsoleCP = (\<lambda>p c. if ok p then (fst c, p) else c)\<rparr>"

interpretation pair: console_pages "pair_console ok" ok
  by unfold_locales (auto simp: pair_console_def)

section \<open>Properties\<close>

text \<open>C40: On Windows the console is left as it was found: whatever the run does, when the process ends
  with a status and the code pages found are ones the system supports, both are as before, and
  the run itself is that of the other platforms, with both at UTF-8 where that is supported.\<close>

theorem console_is_restored:
  assumes "console_pages W supported"
    and "supported (GetConsoleOutputCP W c)" and "supported (GetConsoleCP W c)"
    and "main_windows W unwinds c F PO S J T B D depth argv0 args st = Some ((Exit status, r), c')"
  shows "c' = c \<and> main_program F PO S J T B D depth argv0 args st = Some (Exit status, r) \<and>
    (supported CP_UTF8 \<longrightarrow> GetConsoleOutputCP W (snd (guard_console W c)) = CP_UTF8 \<and>
       GetConsoleCP W (snd (guard_console W c)) = CP_UTF8)"
proof -
  obtain g c1 where g: "guard_console W c = (g, c1)" by (metis surj_pair)
  with assms(4) have "c' = restore_console W g c1"
    and "main_program F PO S J T B D depth argv0 args st = Some (Exit status, r)"
    by (auto simp: main_windows_def with_console_def split: option.splits)
  with g console_pages.restored [OF assms(1-3) g] console_pages.during [OF assms(1) _ g]
  show ?thesis by simp
qed

theorem console_is_restored_witness:
  "\<exists>r. main_windows (pair_console (\<lambda>p. p \<in> {932, 65001})) False (932, 932)
      ((sample_fs ''/app/app.jsonc'')\<lparr>absolute := \<lambda>p. Inl (Foreign_exn False)\<rparr>) sample_po
      (one_file ''/app/app.jsonc'' ''{}'') reference_json reference_text
      \<lparr>BOOST_LIB_VERSION = ''1_86'', BOOST_VERSION = 108600\<rparr>
      (\<lambda>w e. None) 1 ''/app/app'' [] start_options = Some ((Exit 3, r), (932, 932))"
proof -
  let ?W = "pair_console (\<lambda>p. p \<in> {932, 65001})"
  let ?main = "main_windows ?W False (932, 932)
      ((sample_fs ''/app/app.jsonc'')\<lparr>absolute := \<lambda>p. Inl (Foreign_exn False)\<rparr>) sample_po
      (one_file ''/app/app.jsonc'' ''{}'') reference_json reference_text
      \<lparr>BOOST_LIB_VERSION = ''1_86'', BOOST_VERSION = 108600\<rparr>
      (\<lambda>w e. None) 1 ''/app/app'' [] start_options"
  obtain r c' where run: "?main = Some ((Exit 3, r), c')"
    by (simp add: main_windows_def with_console_def guard_console_def main_program_def main_body_def
        init_logging_def handle_exception_def sample_fs_def Let_def)
  have 1: "GetConsoleOutputCP ?W (932, 932) \<in> {932, 65001}"
    and 2: "GetConsoleCP ?W (932, 932) \<in> {932, 65001}"
    by (simp_all add: pair_console_def)
  have "c' = (932, 932)"
    using console_is_restored [OF pair.console_pages_axioms 1 2 run] by blast
  with run show ?thesis by blast
qed

end
