(* ===== verification/Main_Process.thy ===== *)
theory Main_Process
  imports Main_App
begin

text \<open>
  A fresh process running \<open>main\<close> (\<open>src/main.cpp\<close>): the argument vector it is started with and the
  settings singleton (\<open>options::instance()\<close>), which nothing has used before.
\<close>

section \<open>The process\<close>

text \<open>
  \<open>argv[0]\<close> is a null pointer when \<open>argc\<close> is 0, which the standard allows; \<open>init_logging\<close> then
  makes a path of it.  Otherwise the result is that of \<open>main\<close>: \<open>None\<close> when it does not end.
\<close>

definition main_entry ::
    "'p fs_api \<Rightarrow> 'p po_api \<Rightarrow> file_api \<Rightarrow> ('j, 'o) json_api \<Rightarrow> 'j json_text \<Rightarrow> boost_version \<Rightarrow>
     diag_fn \<Rightarrow> nat \<Rightarrow> 'p \<Rightarrow> string list \<Rightarrow>
     ub + (ending \<times> string list \<times> log_record list \<times> 'p options) option" where
  "main_entry F PO S J T B D depth empty_path argv =
     (case argv of
        [] \<Rightarrow> Inl Null_dereference
      | argv0 # args \<Rightarrow>
          Inr (main_program F PO S J T B D depth argv0 args (options_instance empty_path None)))"

section \<open>Helper facts\<close>

lemma main_body_settings:
  assumes "main_body F PO S J T B argv0 args st = (r, st', logs)"
  shows "case r of
      Inl _ \<Rightarrow> input_file_member st' = input_file_member st
    | Inr _ \<Rightarrow> parse_args F PO argv0 args = Inr (input_file_path st') \<and>
        read_from F S J T (input_file_path st') (input_file_member st')"
proof (cases "init_logging F argv0")
  case (Inr cfg)
  show ?thesis
  proof (cases "parse_args F PO argv0 args")
    case parsed: (Inr path)
    obtain r1 st1 l1 where "read_input_file F S J T path st = (r1, st1, l1)" by (metis surj_pair)
    with read_input_file_cases [where F = F and S = S and J = J and T = T and path = path and st = st]
      assms Inr parsed
    show ?thesis
      by (cases r1) (auto simp: main_body_def Let_def student_council_run_def)
  qed (use assms Inr in \<open>auto simp: main_body_def Let_def\<close>)
qed (use assms in \<open>auto simp: main_body_def\<close>)

lemma main_program_parts:
  assumes "main_program F PO S J T B D depth argv0 args st = Some (ending, out, logs, st')"
  obtains r st1 logs1 where "main_body F PO S J T B argv0 args st = (r, st1, logs1)" "st' = st1"
    "ending = Exit 0 \<longleftrightarrow> (\<exists>u. r = Inr u)"
proof -
  obtain r st1 logs1 where body: "main_body F PO S J T B argv0 args st = (r, st1, logs1)"
    by (metis surj_pair)
  show ?thesis
  proof (cases r)
    case (Inl e)
    with assms body obtain fatal where h: "handle_exception D depth e = Some (ending, out, fatal)"
      and st: "st' = st1"
      by (auto simp: main_program_def split: option.splits)
    from main_body_Inl [OF body [unfolded Inl]] have "e \<noteq> Show_help i" for i by blast
    from handle_exception_ending [OF h this] have "ending \<noteq> Exit 0" by (auto split: if_splits)
    with that [OF body st] Inl show ?thesis by simp
  next
    case (Inr u)
    with assms body that [OF body] show ?thesis by (simp add: main_program_def)
  qed
qed

section \<open>Properties\<close>

text \<open>C11: What a fresh process leaves in the settings: started with an empty argument vector it
  dereferences a null pointer before anything else; otherwise, when it ends with status 0 the
  settings are those of the file the command line names, and with any other ending they are
  still the defaults.\<close>

theorem settings_after_the_run:
  "main_entry F PO S J T B D depth empty_path [] = Inl Null_dereference \<and>
   (main_entry F PO S J T B D depth empty_path (argv0 # args) = Inr (Some (ending, out, logs, st)) \<longrightarrow>
     (if ending = Exit 0
      then parse_args F PO argv0 args = Inr (input_file_path st) \<and>
        read_from F S J T (input_file_path st) (input_file_member st)
      else input_file_member st = default_input_file))"
proof -
  have "if ending = Exit 0
      then parse_args F PO argv0 args = Inr (input_file_path st) \<and>
        read_from F S J T (input_file_path st) (input_file_member st)
      else input_file_member st = default_input_file"
    if "main_entry F PO S J T B D depth empty_path (argv0 # args) = Inr (Some (ending, out, logs, st))"
  proof -
    from that have "main_program F PO S J T B D depth argv0 args (options_instance empty_path None) =
        Some (ending, out, logs, st)"
      by (simp add: main_entry_def)
    from main_program_parts [OF this] obtain r logs1 where
      body: "main_body F PO S J T B argv0 args (options_instance empty_path None) = (r, st, logs1)"
      and zero: "ending = Exit 0 \<longleftrightarrow> (\<exists>u. r = Inr u)" by metis
    from main_body_settings [OF body] zero show ?thesis
      by (cases r) (auto simp: options_instance_def new_options_def)
  qed
  then show ?thesis by (simp add: main_entry_def)
qed

theorem settings_after_the_run_witness:
  "\<exists>out logs st. main_entry (sample_fs ''/app/app.jsonc'') sample_po (one_file ''/app/app.jsonc'' ''{}'')
      reference_json reference_text \<lparr>BOOST_LIB_VERSION = ''1_86'', BOOST_VERSION = 108600\<rparr>
      (\<lambda>w e. Some (Inr ''diagnostics'')) 1 '''' [''/app/app'', ''--help''] =
        Inr (Some (Exit 1, out, logs, st)) \<and>
    input_file_member st = default_input_file"
proof -
  let ?F = "sample_fs ''/app/app.jsonc''" and ?S = "one_file ''/app/app.jsonc'' ''{}''"
    and ?B = "\<lparr>BOOST_LIB_VERSION = ''1_86'', BOOST_VERSION = 108600\<rparr>"
    and ?D = "\<lambda>w e. Some (Inr ''diagnostics'')"
  obtain i x where failed: "parse_args ?F sample_po ''/app/app'' [''--help''] = Inl (My_error i x)"
    by (simp add: parse_args_def parse_args_body_def sample_fs_def sample_po_def)
  then obtain out logs st where run: "main_entry ?F sample_po ?S reference_json reference_text ?B ?D 1 ''''
      [''/app/app'', ''--help''] = Inr (Some (Exit 1, out, logs, st))"
    by (simp add: main_entry_def main_program_def main_body_def init_logging_def sample_fs_def Let_def
        handle_exception_def)
  from settings_after_the_run [THEN conjunct2, THEN mp, OF run] run show ?thesis by simp
qed

end
