(* ===== verification/Test_Expectations.thy ===== *)
theory Test_Expectations
  imports Queue_Counts Options
begin

text \<open>
  The model against the expectations of the repository's unit tests (\<open>tests/src\<close>): what the
  single-threaded tests of the queue and the tests of the settings expect, evaluated on the
  definitions, and the tests that close the queue under a blocked thread, for every
  interleaving.  All of them hold except two.  The producer/consumer test is in \<open>Queue_Clients\<close>.
\<close>

section \<open>The queue called by one thread\<close>

text \<open>A single thread is driven until it is idle or blocked for good; a timed wait ends at its
  deadline.\<close>

fun drive :: "nat \<Rightarrow> (unit, 'a) sys \<Rightarrow> (unit, 'a) sys option" where
  "drive 0 s = None"
| "drive (Suc n) s =
     (case pcs s () of
        Idle \<Rightarrow> Some s
      | Waiting c (Some d) \<Rightarrow> Option.bind (exec_all [Tick d, Timeout ()] s) (drive n)
      | _ \<Rightarrow> Option.bind (exec (Run () None) s) (drive n))"

text \<open>No call takes more than seven of these steps.\<close>

fun solo :: "'a call list \<Rightarrow> (unit, 'a) sys \<Rightarrow> (unit, 'a) sys option" where
  "solo [] s = Some s"
| "solo (c # cs) s = Option.bind (Option.bind (exec (Call () c) s) (drive 8)) (solo cs)"

definition results :: "nat \<Rightarrow> 'a call list \<Rightarrow> 'a ret list option" where
  "results cap cs =
     map_option (\<lambda>s. concat (map (\<lambda>(t, e). case e of Return r \<Rightarrow> [r] | _ \<Rightarrow> []) (trace s)))
       (solo cs (init_sys cap))"

lemmas solo_defs = results_def new_queue_def push_waits_def pop_waits_def push_body_def pop_body_def
  close_body_def closed_body_def size_body_def eval_nat_numeral

text \<open>\<open>test_bounded_blocking_queue.cpp\<close>, in the order of its single-threaded tests.\<close>

lemma queue_tests_pass:
  shows "results 4 [Size, Closed :: nat call] = Some [Size_is 0, Is_closed False]"
    and "results 4 [Push 42 None, Pop None] = Some [Pushed True, Popped (Some (42 :: nat))]"
    and "results 4 [Push 1 None, Push 2 None, Push 3 None, Pop None, Pop None, Pop None] =
      Some [Pushed True, Pushed True, Pushed True, Popped (Some (1 :: nat)), Popped (Some 2), Popped (Some 3)]"
    and "results 4 [Size, Push (1 :: nat) None, Size, Push 2 None, Size, Pop None, Size] =
      Some [Size_is 0, Pushed True, Size_is 1, Pushed True, Size_is 2, Popped (Some 1), Size_is 1]"
    and "results 4 [Closed, Close, Closed :: nat call] = Some [Is_closed False, Close_done, Is_closed True]"
    and "results 4 [Close, Push (1 :: nat) None] = Some [Close_done, Pushed False]"
    and "results 4 [Close, Pop None :: nat call] = Some [Close_done, Popped None]"
    and "results 3 [Push 10 None, Push 20 None, Close, Pop None, Pop None, Pop None] =
      Some [Pushed True, Pushed True, Close_done, Popped (Some (10 :: nat)), Popped (Some 20), Popped None]"
    and "results 4 [Push (7 :: nat) (Some 100), Size] = Some [Pushed True, Size_is 1]"
    and "results 1 [Push (0 :: nat) None, Push 99 (Some 50)] = Some [Pushed True, Pushed False]"
    and "results 4 [Push (7 :: nat) None, Pop (Some 100)] = Some [Pushed True, Popped (Some 7)]"
    and "results 4 [Pop (Some 50) :: nat call] = Some [Popped None]"
  by (simp_all add: solo_defs)

section \<open>The queue closed under a blocked thread\<close>

text \<open>\<open>close_unblocks_waiting_pop\<close>: one thread pops, the other closes, nobody pushes.  In every
  interleaving, also when the test's delay is not enough, a \<open>pop\<close> that returns gives \<open>false\<close>.\<close>

lemma close_unblocks_waiting_pop:
  fixes s :: "('t::finite, 'a) sys"
  assumes "reachable cap s" and "tally offered (event_list s) = {#}"
    and "(t, Return (Popped out)) \<in> set (trace s)"
  shows "out = None"
proof (cases out)
  case (Some x)
  with assms(3) have "Return (Popped (Some x)) \<in> set (event_list s)" by force
  from obtainedI [OF this] obtained_was_offered [OF assms(1)] assms(2) show ?thesis by simp
qed

text \<open>\<open>close_unblocks_waiting_push\<close>: capacity 1, two threads push, nobody pops.  Once the first push
  has returned \<open>true\<close>, the other gives \<open>false\<close> if it returns.\<close>

lemma close_unblocks_waiting_push:
  fixes s :: "('t::finite, 'a) sys"
  assumes "reachable 1 s" and "tally asked (event_list s) = 0"
    and "trace s = tr1 @ (t, Return (Pushed True)) # tr2"
  shows "(u, Return (Pushed ok)) \<in> set (tr1 @ tr2) \<Longrightarrow> \<not> ok"
proof
  assume "(u, Return (Pushed ok)) \<in> set (tr1 @ tr2)" and ok
  then have "(u, Return (Pushed True)) \<in> set tr1 \<or> (u, Return (Pushed True)) \<in> set tr2" by simp
  then have "2 \<le> tally accepted (event_list s)"
    by (auto simp: assms(3) in_set_conv_decomp)
  with accepted_bound [OF assms(1)] assms(2) show False by simp
qed

section \<open>The settings\<close>

text \<open>The documents of \<open>test_settings.cpp\<close> and \<open>test_main.cpp\<close>, members in their order.\<close>

fun object_of :: "('j, 'o) json_api \<Rightarrow> (string \<times> 'j) list \<Rightarrow> 'j" where
  "object_of J ms = of_object J (fold (\<lambda>(k, v). set_key J k v) ms (empty_object J))"

text \<open>An object of a server or a client; \<open>peer\<close> is the key the test gives the host under.\<close>

abbreviation server_doc :: "('j, 'o) json_api \<Rightarrow> string \<Rightarrow> string \<Rightarrow> 'j" where
  "server_doc J n s \<equiv> object_of J
     [(''enable'', of_bool_value J True), (''name'', of_string J n), (''service'', of_string J s)]"

abbreviation client_doc :: "('j, 'o) json_api \<Rightarrow> string \<Rightarrow> string \<Rightarrow> string \<Rightarrow> string \<Rightarrow> 'j" where
  "client_doc J peer n h s \<equiv> object_of J
     [(''enable'', of_bool_value J True), (''name'', of_string J n), (peer, of_string J h),
      (''service'', of_string J s)]"

context json_library
begin

lemma commons_tests_pass:
  "commons_of_json J (object_of J [(''appName'', of_string J ''MyApp''), (''version'', of_string J ''2.0'')]) =
     Inr \<lparr>app_name = ''MyApp'', version = ''2.0''\<rparr>"
  "commons_of_json J (object_of J []) = Inr \<lparr>app_name = '''', version = ''''\<rparr>"
  "json_of_commons J \<lparr>app_name = '''', version = ''''\<rparr> = object_of J []"
  by (simp_all add: commons_of_json_def json_of_commons_def read_simps)

lemma server_doc_read:
  "server_of_json J (server_doc J n s) =
     Inr \<lparr>server_enable = True, server_name = n, server_service = Some s\<rparr>"
  by (simp add: server_of_json_def read_simps)

lemma client_doc_read:
  "client_of_json J (client_doc J ''host'' n h s) =
     Inr \<lparr>client_enable = True, client_name = n, client_host = Some h, client_service = Some s\<rparr>"
  by (simp add: client_of_json_def read_simps)

lemma missing_client_keys_read: "client_of_json J (object_of J []) = Inr default_client"
  by (simp add: client_of_json_def read_simps default_defs)

text \<open>Sections of the whole document; a missing key leaves the section's default.\<close>

lemma communications_doc_read:
  "communications_of_json J (object_of J
       [(''server'', server_doc J n s), (''clients'', of_array J [client_doc J ''host'' n' h s'])]) =
     Inr \<lparr>server = \<lparr>server_enable = True, server_name = n, server_service = Some s\<rparr>,
          clients = [\<lparr>client_enable = True, client_name = n', client_host = Some h,
            client_service = Some s'\<rparr>]\<rparr>"
  using server_doc_read [of n s] client_doc_read [of n' h s']
  by (simp add: communications_of_json_def to_list_def as_of_object to_of_array)

lemma file_doc_read:
  assumes "communications_of_json J m = Inr m'"
  shows "input_file_of_json J (object_of J
      [(''commons'', object_of J [(''appName'', of_string J a), (''version'', of_string J v)]),
       (''communications'', m)]) =
    Inr \<lparr>file_commons = \<lparr>app_name = a, version = v\<rparr>, file_communications = m'\<rparr>"
  using assms by (simp add: input_file_of_json_def commons_of_json_def read_simps)

lemma missing_sections_read:
  "communications_of_json J (object_of J []) = Inr default_communications"
  "input_file_of_json J (object_of J []) = Inr default_input_file"
  by (simp_all add: communications_of_json_def input_file_of_json_def default_communications_def
      default_input_file_def read_simps)

lemma missing_service_read: "server_of_json J (object_of J []) = Inr default_server"
  by (simp add: server_of_json_def read_simps default_defs)

lemma address_ignored:
  "client_of_json J (client_doc J ''address'' n h s) =
     Inr \<lparr>client_enable = True, client_name = n, client_host = None, client_service = Some s\<rparr>"
  by (simp add: client_of_json_def read_simps)

end

end
