(* ===== verification/Spec2Isabelle.thy ===== *)
theory Spec2Isabelle
  imports Queue_Timing Queue_Fairness Queue_Counts Message_Exchange Server_Cancellation Core_Communications
    Console Main_Process Test_Expectations
begin

text \<open>
  A verification of the C++ sample application: the communication library
  \<open>libs/comm\<close>, the core library \<open>libs/core\<close> and the entry point \<open>src/main.cpp\<close>.

  The program.  \<open>main\<close> sets up logging, greets, finds the input file on the command line, reads
  it as JSON into the settings singleton and runs the (still empty) council.  Exceptions are
  turned into exit statuses by its handlers.  \<open>libs/comm\<close> holds what the communication will be
  built from: a bounded blocking queue between threads, a fixed message header, a factory of
  messages, sessions with an error signal, their manager and an accepting server.

  Conventions.  An object is a record and an operation takes and returns it; a singleton is the
  state passed along.  A result is a sum with the failure on the left: an exception as a value
  (\<open>Exceptions\<close>: \<open>exn\<close>, with \<open>catch\<close> clauses as tests of its base classes) or undefined
  behaviour (\<open>Fault\<close>), so that a null dereference or a write past a buffer is a branch of the
  model and its absence a theorem.  \<open>uint32_t\<close>, \<open>uint16_t\<close> and bytes are words of their width;
  sizes are natural numbers; strings are byte strings, the Japanese literals given by their
  UTF-8 bytes.  Libraries (Boost.Endian, Asio, JSON, Program_options, Filesystem, Log, Exception)
  and the Windows console are parameters, with their documented contracts as locales
  (\<open>endian_conversion\<close>, \<open>json_library\<close>, \<open>text_roundtrip\<close>, \<open>console_pages\<close>) or named hypotheses (\<open>includes_what\<close>,
  \<open>address_texts_documented\<close>); each has a concrete instance.

  Theories, parts of the source and what their lemmas show.

  \<^item> \<open>Prelude\<close>: bytes, big-endian byte strings, checked copies, results, decimal numbers, counting
    of threads.

  \<^item> \<open>Exceptions\<close> (\<open>core/exceptions\<close>): exception values and the \<open>what()\<close> functions, with the stack
    depth as fuel; \<open>my_error::what()\<close> never returns.

  \<^item> \<open>Blocking_Queue\<close>, \<open>Queue_Threads\<close>, \<open>Queue_Progress\<close>, \<open>Queue_Correct\<close>
    (\<open>comm/utilities/bounded_blocking_queue.hpp\<close>): the critical sections, the sequential queue
    they implement (locale \<open>bounded_fifo\<close>), the step relation \<open>qstep\<close> of any number of threads
    with mutex, condition variables, timeouts and spurious wake-ups, its invariants (mutual
    exclusion, linearization, no lost wake-up), the measure \<open>weight\<close> that bounds every run of
    internal steps, and the properties.  The liveness properties are for finitely many threads.
    \<open>Queue_Timing\<close> adds the timeouts that are due to the steps the threads take by themselves, and
    \<open>Queue_Exceptions\<close> adds elements whose moves throw and interrupted waits (\<open>xstep\<close>).
    \<open>Queue_Clients\<close> runs the producer/consumer program of the repository's test on the queue
    (\<open>client_step\<close>), with the invariant \<open>clients_inv\<close> that links what is pushed, in flight and
    received, and the measure \<open>potential\<close> that bounds its runs; \<open>Queue_Fairness\<close> shows that the
    queue promises no order among its callers.  \<open>Queue_Counts\<close> compares what callers give and get
    (\<open>tally\<close>), from each thread's history to the sum over all threads.

  \<^item> \<open>Message_Header\<close> (\<open>comm/messages/message_header\<close>): setters, encoding, decoding; round trips, the
    wire format on hosts of both byte orders, memory safety of every sequence of operations.

  \<^item> \<open>Keyed_Store\<close>, \<open>Message_Factory\<close> (\<open>comm/messages/message_factory\<close>, \<open>message_register\<close>): the
    registry as a keyed store; registration, at start-up through the lazily constructed singleton,
    and creation.

  \<^item> \<open>Message_Exchange\<close> (\<open>comm/messages/message.hpp\<close>): the message interface, and header and factory
    composed: what arrives of a message described on one host and received on another.

  \<^item> \<open>Session\<close>, \<open>Session_Manager\<close>, \<open>Tcp_Server\<close> (\<open>comm/session.hpp\<close>, \<open>session_manager.hpp\<close>,
    \<open>async_tcp_server\<close>): identifiers, the error signal, the manager on a heap of sessions with
    moved-from pointers as null, and the accepting coroutine over a list of accept results.

  \<^item> \<open>Server_Cancellation\<close> (\<open>async_tcp_server\<close> with \<open>cancel()\<close> and \<open>slot()\<close>): the same coroutine step by
    step between its suspensions, what is left of it after a cancellation (\<open>stopping\<close>), and what
    each of its endings says of the results it was resumed with (\<open>outcome\<close>), a specification that
    does not follow the code.  The lemma \<open>run_corresponds\<close> links it to the list model of \<open>Tcp_Server\<close>.

  \<^item> \<open>Core_Communications\<close> (\<open>core/communications\<close>): construction with the reference to the settings,
    and name resolution.

  \<^item> \<open>Json_Interface\<close>, \<open>Json_Text\<close>, \<open>Settings\<close>, \<open>Options\<close> (\<open>core/settings\<close>): the part of Boost.JSON
    used, the conversions of the settings structures in both directions, and
    \<open>options::read_input_file\<close> with all its failures.

  \<^item> \<open>Logging\<close>, \<open>Council\<close>, \<open>Main_App\<close> (\<open>core/student_council\<close>, \<open>historian\<close>, \<open>src/main.cpp\<close>): log
    records and sink filters, the greeting, \<open>init_logging\<close>, \<open>parse_args\<close>, \<open>main\<close> and its handlers.
    \<open>Console\<close> adds what \<open>main\<close> does to the console's code pages on Windows, \<open>Main_Process\<close> the
    argument vector and the settings a fresh process starts and ends with.

  \<^item> \<open>Test_Expectations\<close> (\<open>tests/src\<close>): the single-threaded tests of the queue and the settings tests
    evaluated on the definitions, and the two tests of \<open>close\<close> under a blocked thread for every
    interleaving.  They hold but for two: \<open>missing_service_read\<close> (the test expects an empty service,
    the code gives none) and \<open>address_ignored\<close> (the test names the host \<open>address\<close>, which no code
    reads).

  Fuel and bounds.  \<open>what\<close> takes a stack depth, and the theorems about it hold for every depth;
  the parser of the reference documents takes the length of its text, which \<open>parse_print\<close> shows
  to be enough.  The escaping loop of \<open>session::id()\<close> and the decimal conversion terminate by a
  measure.  \<open>drive\<close> of \<open>Test_Expectations\<close> takes eight steps of one thread, more than any call needs:
  each evaluated test gives a result.  No other definition has fuel.

  What the properties show.  The queue is linearizable, loses no wake-up, releases every thread
  on \<open>close\<close>, and its timed calls return; nothing is lost or made up between its callers; a
  producer and its consumers end with everything delivered.  The header is safe for every sequence
  of operations and is read back as written unless its type holds a NUL, so that a message reaches
  an object of its class.  A start-up in any order leaves a factory that makes the registered classes.
  The server's coroutine stops after a cancellation, and each of its endings has one cause among
  the results it was given.  The settings are read back as written exactly when every optional
  member is present; through the text of a file this is for strings in UTF-8, which the parser
  checks.  Exit statuses are the
  documented ones.  Some properties state what is wrong: \<open>add_session\<close> uses a pointer it has moved
  from, so the server faults at its first connection; the error handler of a lost session does
  not find its entry; an element whose assignment throws swallows a wake-up; \<open>--help\<close> is not
  shown; \<open>my_error::what()\<close> does not return, so \<open>main\<close> reports no error of its own.

  Not modelled: memory exhaustion apart from a throwing element; life times of shared objects (no
  session survives \<open>add_session\<close>, so there is none to outlive); the infinite and undefined values
  of \<open>time_duration\<close>, whose treatment by \<open>timed_wait\<close> Boost does not document, so timeouts are
  finite; a timed wait that takes a notification and still reports its timeout, which POSIX lets it
  do; the use of the configuration \<open>init_logging\<close> returns, as the records of \<open>main\<close> pass the filters
  directly (\<open>console_least\<close>, \<open>file_least\<close>); calls of the singletons by several threads at once,
  which nothing in them guards and no code here makes; the formatting, rotation and files of Boost.Log; the generated export header;
  the conditions on the parameter of \<open>message_register\<close>, which the compiler checks; the tests that
  write and read files or convert back and forth, which are instances of the properties of
  \<open>Options\<close> and \<open>Settings\<close>.  Classes derived from \<open>message\<close> are the user's and parameters.  Of the
  headers only what is defined in them is modelled, not the declarations of functions defined
  elsewhere, nor destructors, which are all defaulted.  With that, every function body under
  \<open>src\<close>, \<open>libs/comm\<close> and \<open>libs/core\<close> has a definition here but for constructors with an empty body.
\<close>

end
